theory Spec2Isabelle
  imports Main
begin

section \<open>The asynchronous logger of include/log.h\<close>

text \<open>
  The header implements a singleton \<open>Logger\<close> with a record queue protected by one mutex,
  one background thread (\<open>_processLogQueue\<close>) that pops, formats and writes the records, and
  the calls \<open>init\<close>, \<open>log\<close>, \<open>wait\<close> and \<open>shutdown\<close> made by the other threads.

  Strings are byte lists. A \<open>const char*\<close> argument is the list of the bytes before its
  terminating zero. The clock, the thread id and the outcome of opening the file belong to
  the environment and are parameters of the functions that consult them.
\<close>

subsection \<open>Enumerations\<close>

datatype LogLevel = DBUG | INFO | WARN | EROR

text \<open>The value of the enumerator, which is what \<open>level >= _eLogLevel\<close> compares.\<close>

fun level_value :: "LogLevel \<Rightarrow> int" where
  "level_value DBUG = 0"
| "level_value INFO = 1"
| "level_value WARN = 2"
| "level_value EROR = 3"

datatype ConsoleColor = DEFAULT | BLACK | RED | GREEN | YELLOW | BLUE | MAGENTA | CYAN | WHITE

fun color_value :: "ConsoleColor \<Rightarrow> int" where
  "color_value DEFAULT = 0"
| "color_value BLACK = 30"
| "color_value RED = 31"
| "color_value GREEN = 32"
| "color_value YELLOW = 33"
| "color_value BLUE = 34"
| "color_value MAGENTA = 35"
| "color_value CYAN = 36"
| "color_value WHITE = 37"

subsection \<open>Stream output of numbers\<close>

definition digit_char :: "nat \<Rightarrow> char" where
  "digit_char d = ''0123456789'' ! (d mod 10)"

fun show_nat :: "nat \<Rightarrow> string" where
  "show_nat n = (if n < 10 then [digit_char n] else show_nat (n div 10) @ [digit_char (n mod 10)])"

declare show_nat.simps [simp del]

text \<open>\<open>operator<<\<close> on a signed integer: decimal digits, a minus sign when negative.\<close>

definition show_int :: "int \<Rightarrow> string" where
  "show_int i = (if i < 0 then CHR ''-'' # show_nat (nat (- i)) else show_nat (nat i))"

text \<open>\<open>std::setfill(c) << std::setw(w)\<close> before one item: the item is padded on the left.\<close>

definition setw_fill :: "nat \<Rightarrow> char \<Rightarrow> string \<Rightarrow> string" where
  "setw_fill w c str = replicate (w - length str) c @ str"

subsection \<open>The broken-down time and \<open>std::put_time\<close>\<close>

record tm =
  tm_sec :: int
  tm_min :: int
  tm_hour :: int
  tm_mday :: int
  tm_mon :: int
  tm_year :: int

text \<open>A two-digit field of \<open>strftime\<close> (\<open>%m %d %H %M %S\<close>).\<close>

definition two_digits :: "int \<Rightarrow> string" where
  "two_digits i = (if 0 \<le> i \<and> i < 10 then CHR ''0'' # show_int i else show_int i)"

text \<open>\<open>std::put_time(tm, "%Y-%m-%d %H:%M:%S")\<close>: \<open>tm_year\<close> counts from 1900, \<open>tm_mon\<close> from 0.\<close>

definition put_time :: "tm \<Rightarrow> string" where
  "put_time t =
     show_int (tm_year t + 1900) @ ''-'' @ two_digits (tm_mon t + 1) @ ''-'' @ two_digits (tm_mday t)
     @ '' '' @ two_digits (tm_hour t) @ '':'' @ two_digits (tm_min t) @ '':'' @ two_digits (tm_sec t)"

text \<open>
  What \<open>_formatLogMessage\<close> reads from its environment: the local time of
  \<open>system_clock::now()\<close>, its millisecond part and the id of the calling thread.
\<close>

record env =
  now_tm :: tm
  now_ms :: int
  thread_id :: nat

subsection \<open>The formatter\<close>

fun logLevelToString :: "LogLevel \<Rightarrow> string" where
  "logLevelToString INFO = ''INFO''"
| "logLevelToString WARN = ''WARN''"
| "logLevelToString EROR = ''EROR''"
| "logLevelToString DBUG = ''DBUG''"

definition is_slash :: "char \<Rightarrow> bool" where
  "is_slash c = (c = CHR ''/'' \<or> c = CHR 0x5C)"

text \<open>
  The loop of \<open>_extractFilename\<close>: \<open>filename\<close> is the text from the pointer \<open>filename\<close> on,
  the second argument the text from \<open>ptr\<close> on.
\<close>

fun extractFilename_loop :: "string \<Rightarrow> string \<Rightarrow> string" where
  "extractFilename_loop filename [] = filename"
| "extractFilename_loop filename (c # rest) =
     (if is_slash c then extractFilename_loop rest rest else extractFilename_loop filename rest)"

definition extractFilename :: "string \<Rightarrow> string" where
  "extractFilename filePath = extractFilename_loop filePath filePath"

definition newline :: string where
  "newline = [CHR 0x0A]"

definition formatLogMessage :: "env \<Rightarrow> LogLevel \<Rightarrow> string \<Rightarrow> string \<Rightarrow> string \<Rightarrow> int \<Rightarrow> string" where
  "formatLogMessage e level message file func line =
     ''['' @ put_time (now_tm e) @ ''.'' @ setw_fill 3 (CHR ''0'') (show_int (now_ms e)) @ ''] ''
     @ ''['' @ logLevelToString level @ '']''
     @ ''['' @ show_nat (thread_id e) @ '']: '' @ message
     @ '' ('' @ extractFilename file @ '' '' @ func @ '':'' @ show_int line @ '')'' @ newline"


text \<open>
  The layout as the specification documents it, for comparison with the formatter:
  \<open>[YYYY-MM-DD HH:MM:SS.mmm] [LEVEL] [pid/tid]: message (basename:function:line)\<close>.
\<close>

definition documented_layout :: "env \<Rightarrow> LogLevel \<Rightarrow> string \<Rightarrow> string \<Rightarrow> string \<Rightarrow> int \<Rightarrow> string" where
  "documented_layout e level message file func line =
     ''['' @ put_time (now_tm e) @ ''.'' @ setw_fill 3 (CHR ''0'') (show_int (now_ms e)) @ ''] ''
     @ ''['' @ logLevelToString level @ ''] ''
     @ ''['' @ show_nat (thread_id e) @ '']: '' @ message
     @ '' ('' @ extractFilename file @ '':'' @ func @ '':'' @ show_int line @ '')''"

text \<open>The capture time 2024-06-22 10:00:00.500 on the thread \<open>t\<close>.\<close>

definition example_env :: "nat \<Rightarrow> env" where
  "example_env t =
     \<lparr>now_tm = \<lparr>tm_sec = 0, tm_min = 0, tm_hour = 10, tm_mday = 22, tm_mon = 5, tm_year = 124\<rparr>,
      now_ms = 500, thread_id = t\<rparr>"

subsection \<open>Console colours\<close>

definition escape :: char where
  "escape = CHR 0x1B"

text \<open>The constructor of \<open>ConsoleColorSetter\<close> computes \<open>_strColorCode\<close>; \<open>operator<<\<close> inserts it.\<close>

definition ConsoleColorSetter :: "ConsoleColor \<Rightarrow> string" where
  "ConsoleColorSetter color = escape # ''['' @ show_int (color_value color) @ ''m''"

text \<open>The destructor of \<open>ConsoleColorSetter\<close> prints this to \<open>std::cout\<close>.\<close>

definition resetColor :: string where
  "resetColor = escape # ''[0m''"

text \<open>The \<open>switch\<close> of the consumer on the level of the record.\<close>

fun level_color :: "LogLevel \<Rightarrow> ConsoleColor" where
  "level_color DBUG = GREEN"
| "level_color INFO = DEFAULT"
| "level_color WARN = YELLOW"
| "level_color EROR = RED"

subsection \<open>The state of the logger\<close>

text \<open>
  An entry of the queue: level, message, \<open>file\<close>, \<open>func\<close> and line. The code queues the two
  pointers \<open>file\<close> and \<open>func\<close> and reads the text at them when the background thread
  formats the entry; the entry of the model holds that text, which is the text at the
  time of the call as long as the buffers are not changed in between (the \<open>LOG\<close> macros
  pass the literals \<open>__FILE__\<close> and \<open>__func__\<close>).
\<close>

type_synonym LogEntry = "LogLevel \<times> string \<times> string \<times> string \<times> int"

datatype errc = invalid_argument

datatype cpp_exception = LogException string | system_error errc

text \<open>
  How a call ends: it returns, it throws, it cannot go on in this state because another
  thread holds what it waits for (\<open>Blocked\<close>), or \<open>std::terminate\<close> ends the process.
\<close>

datatype outcome = Returned | Thrown cpp_exception | Blocked | Terminated

text \<open>
  Where the background thread stands in \<open>_processLogQueue\<close>:
  \<^item> \<open>LoopHead\<close>: before the test of the outer \<open>while (!_bStopThread)\<close>;
  \<^item> \<open>LockMutex\<close>: at the constructor of the \<open>unique_lock\<close>;
  \<^item> \<open>WaitCond\<close>: in \<open>wait\<close>, holding the mutex, before the predicate is evaluated;
  \<^item> \<open>Asleep\<close>: suspended in \<open>wait\<close>, the mutex released;
  \<^item> \<open>InnerHead\<close>: holding the mutex, before the test of \<open>while (!_LogQueue.empty())\<close>;
  \<^item> \<open>Write entry\<close>: after \<open>pop\<close> and \<open>unlock\<close>, before the record is formatted and written;
  \<^item> \<open>Relock\<close>: at \<open>lock.lock()\<close>;
  \<^item> \<open>Finished\<close>: the function has returned.
\<close>

datatype thread_pc =
  LoopHead | LockMutex | WaitCond | Asleep | InnerHead | Write LogEntry | Relock | Finished

datatype holder = Consumer | Caller

text \<open>An output file stream: whether it is open, and the bytes appended through it since.\<close>

record ofstream =
  is_open :: bool
  written :: string

text \<open>
  The members of \<open>Logger\<close>. \<open>tMutex\<close> is the thread that holds \<open>_tMutex\<close>;
  \<open>tAsyncThread\<close> is \<open>None\<close> when the \<open>std::thread\<close> is not joinable and otherwise the
  position of its thread of execution. The condition variable has no field: a thread
  suspended on it may wake at any time, as the standard allows. \<open>cout\<close> is the standard
  output of the process, which the consumer writes.
\<close>

record Logger =
  bStopThread :: bool
  tMutex :: "holder option"
  eLogLevel :: LogLevel
  tAsyncThread :: "thread_pc option"
  tFileStream :: ofstream
  eConsoleColorThreshold :: LogLevel
  LogQueue :: "LogEntry list"
  cout :: string

text \<open>The constructor and the member initialiser \<open>_bStopThread = true\<close>.\<close>

definition Logger_ctor :: "string \<Rightarrow> Logger" where
  "Logger_ctor out =
     \<lparr>bStopThread = True, tMutex = None, eLogLevel = INFO, tAsyncThread = None,
      tFileStream = \<lparr>is_open = False, written = []\<rparr>, eConsoleColorThreshold = WARN,
      LogQueue = [], cout = out\<rparr>"

subsection \<open>The calls\<close>

definition setLogLevel :: "LogLevel \<Rightarrow> Logger \<Rightarrow> Logger" where
  "setLogLevel level s = s\<lparr>eLogLevel := level\<rparr>"

text \<open>
  \<open>_setLogFile\<close>, run with the mutex: the stream is closed and opened again on
  \<open>filename\<close>; \<open>can_open\<close> is whether the system opens that file.
\<close>

definition setLogFile :: "string \<Rightarrow> bool \<Rightarrow> Logger \<Rightarrow> Logger" where
  "setLogFile filename can_open s = s\<lparr>tFileStream := \<lparr>is_open = can_open, written = []\<rparr>\<rparr>"

text \<open>
  \<open>init\<close>. Assigning to a \<open>std::thread\<close> that is joinable calls \<open>std::terminate\<close>;
  otherwise the new thread starts at the head of \<open>_processLogQueue\<close>.
\<close>

definition init :: "LogLevel \<Rightarrow> string \<Rightarrow> bool \<Rightarrow> Logger \<Rightarrow> outcome \<times> Logger" where
  "init level filename can_open s =
     (let s1 = setLogLevel level s in
      if tMutex s1 \<noteq> None then (Blocked, s1)
      else
        let s2 = setLogFile filename can_open s1;
            s3 = s2\<lparr>bStopThread := False\<rparr>
        in if tAsyncThread s3 \<noteq> None then (Terminated, s3)
           else (Returned, s3\<lparr>tAsyncThread := Some LoopHead\<rparr>))"

definition log :: "LogLevel \<Rightarrow> string \<Rightarrow> string \<Rightarrow> string \<Rightarrow> int \<Rightarrow> Logger \<Rightarrow> outcome \<times> Logger" where
  "log level message file func line s =
     (if bStopThread s then (Thrown (LogException ''Logger has not been initialized''), s)
      else if level_value level \<ge> level_value (eLogLevel s) then
        (if tMutex s \<noteq> None then (Blocked, s)
         else (Returned, s\<lparr>LogQueue := LogQueue s @ [(level, message, file, func, line)]\<rparr>))
      else (Returned, s))"

text \<open>\<open>shutdown\<close>, first part: the block that sets the flag with the mutex, and the notification.\<close>

definition shutdown_stop :: "Logger \<Rightarrow> outcome \<times> Logger" where
  "shutdown_stop s =
     (if tMutex s \<noteq> None then (Blocked, s) else (Returned, s\<lparr>bStopThread := True\<rparr>))"

text \<open>
  \<open>shutdown\<close>, second part: \<open>_tAsyncThread.join()\<close>. It throws \<open>std::system_error\<close> with
  \<open>invalid_argument\<close> on a thread that is not joinable and returns once the thread has
  finished.
\<close>

definition shutdown_join :: "Logger \<Rightarrow> outcome \<times> Logger" where
  "shutdown_join s =
     (case tAsyncThread s of
        None \<Rightarrow> (Thrown (system_error invalid_argument), s)
      | Some pc \<Rightarrow> if pc = Finished then (Returned, s\<lparr>tAsyncThread := None\<rparr>) else (Blocked, s))"

text \<open>The whole of \<open>shutdown\<close> when no other thread runs between its two parts.\<close>

definition shutdown :: "Logger \<Rightarrow> outcome \<times> Logger" where
  "shutdown s =
     (case shutdown_stop s of
        (Returned, s1) \<Rightarrow> shutdown_join s1
      | r \<Rightarrow> r)"

subsection \<open>The background thread\<close>

definition format_entry :: "env \<Rightarrow> LogEntry \<Rightarrow> string" where
  "format_entry e entry =
     (case entry of (level, message, file, func, line) \<Rightarrow>
        formatLogMessage e level message file func line)"

definition coloredMessage :: "LogLevel \<Rightarrow> string \<Rightarrow> string" where
  "coloredMessage level logMessage =
     ConsoleColorSetter (level_color level) @ logMessage @ ConsoleColorSetter DEFAULT"

text \<open>
  The body of the inner loop between \<open>unlock\<close> and \<open>lock\<close>. Each of the two temporary
  \<open>ConsoleColorSetter\<close> objects is destroyed at the end of its statement, and its destructor
  prints the reset code to \<open>std::cout\<close> before the coloured message is printed.
\<close>

definition write_entry :: "env \<Rightarrow> LogEntry \<Rightarrow> Logger \<Rightarrow> Logger" where
  "write_entry e entry s =
     (let logMessage = format_entry e entry;
          s1 = (if is_open (tFileStream s)
                then s\<lparr>tFileStream := (tFileStream s)\<lparr>written := written (tFileStream s) @ logMessage\<rparr>\<rparr>
                else s);
          s2 = s1\<lparr>cout := cout s1 @ resetColor\<rparr>;
          s3 = s2\<lparr>cout := cout s2 @ resetColor\<rparr>
      in s3\<lparr>cout := cout s3 @ coloredMessage (fst entry) logMessage\<rparr>)"

text \<open>One step of the thread at a given position; \<open>None\<close> when it cannot move.\<close>

fun thread_step :: "env \<Rightarrow> thread_pc \<Rightarrow> Logger \<Rightarrow> Logger option" where
  "thread_step e LoopHead s =
     Some (s\<lparr>tAsyncThread := Some (if bStopThread s then Finished else LockMutex)\<rparr>)"
| "thread_step e LockMutex s =
     (if tMutex s = None then Some (s\<lparr>tMutex := Some Consumer, tAsyncThread := Some WaitCond\<rparr>)
      else None)"
| "thread_step e WaitCond s =
     (if bStopThread s \<or> LogQueue s \<noteq> [] then Some (s\<lparr>tAsyncThread := Some InnerHead\<rparr>)
      else Some (s\<lparr>tMutex := None, tAsyncThread := Some Asleep\<rparr>))"
| "thread_step e Asleep s =
     (if tMutex s = None then Some (s\<lparr>tMutex := Some Consumer, tAsyncThread := Some WaitCond\<rparr>)
      else None)"
| "thread_step e InnerHead s =
     (case LogQueue s of
        [] \<Rightarrow> Some (s\<lparr>tMutex := None, tAsyncThread := Some LoopHead\<rparr>)
      | entry # rest \<Rightarrow>
          Some (s\<lparr>LogQueue := rest, tMutex := None, tAsyncThread := Some (Write entry)\<rparr>))"
| "thread_step e (Write entry) s = Some ((write_entry e entry s)\<lparr>tAsyncThread := Some Relock\<rparr>)"
| "thread_step e Relock s =
     (if tMutex s = None then Some (s\<lparr>tMutex := Some Consumer, tAsyncThread := Some InnerHead\<rparr>)
      else None)"
| "thread_step e Finished s = None"

definition processLogQueue_step :: "env \<Rightarrow> Logger \<Rightarrow> Logger option" where
  "processLogQueue_step e s =
     (case tAsyncThread s of None \<Rightarrow> None | Some pc \<Rightarrow> thread_step e pc s)"

subsection \<open>\<open>wait\<close>, step by step\<close>

text \<open>
  Where a caller stands in \<open>wait\<close>: at the constructor of the \<open>unique_lock\<close>; in
  \<open>wait_for\<close> holding the mutex, before the predicate; suspended; at the destructor of the
  lock; returned.
\<close>

datatype wait_pc = WEntry | WHold | WAsleep | WUnlock | WDone

text \<open>
  \<open>wait_for(lock, 1ms, pred)\<close> is \<open>while (!pred()) if (timed out) return pred(); return true\<close>.
  The argument \<open>timed_out\<close> says how a suspended caller wakes.
\<close>

fun wait_step :: "bool \<Rightarrow> wait_pc \<times> Logger \<Rightarrow> (wait_pc \<times> Logger) option" where
  "wait_step timed_out (WEntry, s) =
     (if tMutex s = None then Some (WHold, s\<lparr>tMutex := Some Caller\<rparr>) else None)"
| "wait_step timed_out (WHold, s) =
     (if LogQueue s = [] then Some (WUnlock, s) else Some (WAsleep, s\<lparr>tMutex := None\<rparr>))"
| "wait_step timed_out (WAsleep, s) =
     (if tMutex s = None
      then Some (if timed_out then WUnlock else WHold, s\<lparr>tMutex := Some Caller\<rparr>)
      else None)"
| "wait_step timed_out (WUnlock, s) = Some (WDone, s\<lparr>tMutex := None\<rparr>)"
| "wait_step timed_out (WDone, s) = None"

fun wait_steps :: "bool list \<Rightarrow> wait_pc \<times> Logger \<Rightarrow> (wait_pc \<times> Logger) option" where
  "wait_steps [] c = Some c"
| "wait_steps (t # ts) c = (case wait_step t c of None \<Rightarrow> None | Some c' \<Rightarrow> wait_steps ts c')"

subsection \<open>Schedules\<close>

text \<open>
  An execution is a sequence of actions: the calls of the other threads, \<open>shutdown\<close> in its
  two parts, and the steps of the background thread, each with the environment it reads.
  \<open>log\<close> reads the flag and the threshold, which the background thread never writes, and
  changes the queue inside one critical section, so it is one action. The steps of a
  caller inside \<open>wait\<close> are added to the schedules further down.
\<close>

datatype action =
  CallInit LogLevel string bool
| CallLog LogLevel string string string int
| ShutdownStop
| ShutdownJoin
| Consume env

fun exec :: "action \<Rightarrow> Logger \<Rightarrow> outcome \<times> Logger" where
  "exec (CallInit level filename can_open) s = init level filename can_open s"
| "exec (CallLog level message file func line) s = log level message file func line s"
| "exec ShutdownStop s = shutdown_stop s"
| "exec ShutdownJoin s = shutdown_join s"
| "exec (Consume e) s =
     (case processLogQueue_step e s of None \<Rightarrow> (Blocked, s) | Some s' \<Rightarrow> (Returned, s'))"

text \<open>
  A schedule runs while each action returns or throws (the caller may catch); it is not an
  execution when an action is blocked or terminates the process.
\<close>

fun run :: "action list \<Rightarrow> Logger \<Rightarrow> Logger option" where
  "run [] s = Some s"
| "run (a # as) s =
     (case exec a s of
        (Returned, s') \<Rightarrow> run as s'
      | (Thrown x, s') \<Rightarrow> run as s'
      | (Blocked, s') \<Rightarrow> None
      | (Terminated, s') \<Rightarrow> None)"

text \<open>The records that have left the queue or are in it and are not written yet.\<close>

definition pending :: "Logger \<Rightarrow> LogEntry list" where
  "pending s = (case tAsyncThread s of Some (Write entry) \<Rightarrow> [entry] | _ \<Rightarrow> []) @ LogQueue s"

subsection \<open>What a schedule submits and what the sinks hold\<close>

fun is_init :: "action \<Rightarrow> bool" where
  "is_init (CallInit level filename can_open) = True"
| "is_init a = False"

text \<open>
  The records that the \<open>log\<close> calls of a schedule put into the queue, in the order of the
  calls, when the threshold is \<open>thr\<close> and \<open>stopped\<close> is the flag before the schedule.
\<close>

fun submitted :: "LogLevel \<Rightarrow> bool \<Rightarrow> action list \<Rightarrow> LogEntry list" where
  "submitted thr stopped [] = []"
| "submitted thr stopped (CallLog level message file func line # as) =
     (if \<not> stopped \<and> level_value thr \<le> level_value level
      then [(level, message, file, func, line)] else [])
     @ submitted thr stopped as"
| "submitted thr stopped (ShutdownStop # as) = submitted thr True as"
| "submitted thr stopped (a # as) = submitted thr stopped as"

text \<open>A \<open>log\<close> call at or above the threshold, or a step of the background thread.\<close>

fun accepted_call :: "LogLevel \<Rightarrow> action \<Rightarrow> bool" where
  "accepted_call thr (CallLog level message file func line) = (level_value thr \<le> level_value level)"
| "accepted_call thr (Consume e) = True"
| "accepted_call thr a = False"

text \<open>A part of \<open>shutdown\<close>, or a step of the background thread.\<close>

fun closing_action :: "action \<Rightarrow> bool" where
  "closing_action ShutdownStop = True"
| "closing_action ShutdownJoin = True"
| "closing_action (Consume e) = True"
| "closing_action a = False"

fun logged :: "action list \<Rightarrow> LogEntry list" where
  "logged [] = []"
| "logged (CallLog level message file func line # as) = (level, message, file, func, line) # logged as"
| "logged (a # as) = logged as"

text \<open>
  The text of the file and of the console for a list of records, each with the
  environment in which it was formatted.
\<close>

definition file_text :: "(env \<times> LogEntry) list \<Rightarrow> string" where
  "file_text hist = concat (map (\<lambda>(e, entry). format_entry e entry) hist)"

definition console_text :: "(env \<times> LogEntry) list \<Rightarrow> string" where
  "console_text hist =
     concat (map (\<lambda>(e, entry).
       resetColor @ resetColor @ coloredMessage (fst entry) (format_entry e entry)) hist)"

subsection \<open>Example executions\<close>

definition example_entry :: LogEntry where
  "example_entry = (WARN, ''disk low'', ''/a/b/c.cpp'', ''poll'', 42)"

definition example_log :: action where
  "example_log = CallLog WARN ''disk low'' ''/a/b/c.cpp'' ''poll'' 42"

text \<open>
  One record is submitted; the background thread enters its loop, takes the mutex, finds
  the queue filled, pops the record and writes it.
\<close>

definition example_calls :: "action list" where
  "example_calls =
     [example_log, Consume (example_env 7), Consume (example_env 7), Consume (example_env 7),
      Consume (example_env 7), Consume (example_env 7)]"

text \<open>
  \<open>shutdown\<close> sets the flag; the background thread takes the mutex again, finds the queue
  empty, leaves the inner loop, sees the flag and returns; \<open>join\<close> returns.
\<close>

definition example_closing :: "action list" where
  "example_closing =
     [ShutdownStop, Consume (example_env 7), Consume (example_env 7), Consume (example_env 7),
      ShutdownJoin]"

subsection \<open>Who holds the mutex\<close>

fun holds_mutex :: "thread_pc \<Rightarrow> bool" where
  "holds_mutex WaitCond = True"
| "holds_mutex InnerHead = True"
| "holds_mutex pc = False"

text \<open>
  In an execution without a caller inside \<open>wait\<close>, the mutex is held exactly while the
  background thread stands where it holds it, and a thread that has returned has seen the
  flag.
\<close>

definition consistent :: "Logger \<Rightarrow> bool" where
  "consistent s =
     (case tAsyncThread s of
        None \<Rightarrow> tMutex s = None
      | Some pc \<Rightarrow>
          tMutex s = (if holds_mutex pc then Some Consumer else None)
          \<and> (if pc = Finished then bStopThread s else True))"

text \<open>
  After \<open>init\<close> two records are submitted; the background thread enters its loop, takes
  the mutex and finds the queue filled.
\<close>

definition two_records_schedule :: "action list" where
  "two_records_schedule =
     [CallInit WARN ''app.log'' True,
      example_log, CallLog EROR ''disk full'' ''/a/b/c.cpp'' ''poll'' 57,
      Consume (example_env 7), Consume (example_env 7), Consume (example_env 7)]"

definition two_records_state :: "thread_pc \<Rightarrow> holder option \<Rightarrow> LogEntry list \<Rightarrow> string \<Rightarrow> string \<Rightarrow> Logger" where
  "two_records_state pc mutex queue file_text_written printed =
     \<lparr>bStopThread = False, tMutex = mutex, eLogLevel = WARN, tAsyncThread = Some pc,
      tFileStream = \<lparr>is_open = True, written = file_text_written\<rparr>,
      eConsoleColorThreshold = WARN, LogQueue = queue, cout = printed\<rparr>"

text \<open>The background thread has popped the record of the example and is about to write it.\<close>

definition writing_state :: Logger where
  "writing_state =
     \<lparr>bStopThread = False, tMutex = None, eLogLevel = WARN,
      tAsyncThread = Some (Write (WARN, ''disk low'', ''/a/b/c.cpp'', ''poll'', 42)),
      tFileStream = \<lparr>is_open = True, written = []\<rparr>, eConsoleColorThreshold = WARN,
      LogQueue = [], cout = []\<rparr>"

subsection \<open>\<open>wait\<close> among the other threads\<close>

text \<open>
  A move is an action of the schedule or a step of the caller that is inside \<open>wait\<close>.
\<close>

datatype move = Act action | WaitStep bool

fun run_with_wait :: "move list \<Rightarrow> wait_pc \<times> Logger \<Rightarrow> (wait_pc \<times> Logger) option" where
  "run_with_wait [] c = Some c"
| "run_with_wait (Act a # ms) (pc, s) =
     (case exec a s of
        (Returned, s') \<Rightarrow> run_with_wait ms (pc, s')
      | (Thrown x, s') \<Rightarrow> run_with_wait ms (pc, s')
      | (Blocked, s') \<Rightarrow> None
      | (Terminated, s') \<Rightarrow> None)"
| "run_with_wait (WaitStep timed_out # ms) c =
     (case wait_step timed_out c of None \<Rightarrow> None | Some c' \<Rightarrow> run_with_wait ms c')"

fun other_actions :: "move list \<Rightarrow> action list" where
  "other_actions [] = []"
| "other_actions (Act a # ms) = a # other_actions ms"
| "other_actions (WaitStep timed_out # ms) = other_actions ms"

text \<open>
  The logger \<open>s\<close> seen with a caller at \<open>pc\<close> inside \<open>wait\<close>, and the logger \<open>t\<close> that the
  other threads alone would have made: they differ only by the mutex that the caller
  holds.
\<close>

definition wait_rel :: "wait_pc \<Rightarrow> Logger \<Rightarrow> Logger \<Rightarrow> bool" where
  "wait_rel pc s t =
     (consistent t \<and>
      (if pc = WHold \<or> pc = WUnlock then tMutex t = None \<and> s = t\<lparr>tMutex := Some Caller\<rparr>
       else s = t))"

text \<open>
  Two records are queued and the background thread holds the mutex at the head of its
  inner loop; a caller enters \<open>wait\<close> while the thread writes the first record, is
  suspended, and times out while the thread writes the second.
\<close>

definition wait_example :: "move list" where
  "wait_example =
     [Act (Consume (example_env 7)), WaitStep False, Act (Consume (example_env 7)),
      WaitStep False, Act (Consume (example_env 7)), Act (Consume (example_env 7)),
      WaitStep True, Act (Consume (example_env 7)), WaitStep False]"

subsection \<open>Fixed-width decimal fields\<close>

text \<open>
  The \<open>w\<close> lowest decimal digits of \<open>n\<close>, the most significant first: what a field of
  \<open>w\<close> digits padded with zeros shows for a number below \<open>10 ^ w\<close>.
\<close>

fun fixed_digits :: "nat \<Rightarrow> nat \<Rightarrow> string" where
  "fixed_digits 0 n = []"
| "fixed_digits (Suc w) n = fixed_digits w (n div 10) @ [digit_char (n mod 10)]"

text \<open>
  The capture times that \<open>localtime\<close> yields for the years 1000 to 9999 at or after the
  epoch: every field in its range, the millisecond part from 0 to 999.
\<close>

definition valid_time :: "env \<Rightarrow> bool" where
  "valid_time e =
     (1000 \<le> tm_year (now_tm e) + 1900 \<and> tm_year (now_tm e) + 1900 \<le> 9999
      \<and> 0 \<le> tm_mon (now_tm e) \<and> tm_mon (now_tm e) \<le> 11
      \<and> 1 \<le> tm_mday (now_tm e) \<and> tm_mday (now_tm e) \<le> 31
      \<and> 0 \<le> tm_hour (now_tm e) \<and> tm_hour (now_tm e) \<le> 23
      \<and> 0 \<le> tm_min (now_tm e) \<and> tm_min (now_tm e) \<le> 59
      \<and> 0 \<le> tm_sec (now_tm e) \<and> tm_sec (now_tm e) \<le> 60
      \<and> 0 \<le> now_ms e \<and> now_ms e \<le> 999)"

subsection \<open>The queue when the flag is set\<close>

text \<open>
  The flag is set, and nothing is on its way whenever the background thread stands
  before the test of its outer loop, has returned or has been joined.
\<close>

definition drained_or_inside :: "Logger \<Rightarrow> bool" where
  "drained_or_inside s =
     (bStopThread s \<and>
      (case tAsyncThread s of
         None \<Rightarrow> pending s = []
       | Some pc \<Rightarrow> if pc = LoopHead \<or> pc = Finished then pending s = [] else True))"

text \<open>
  After \<open>init\<close> with the file opened, two records at or above the threshold are
  submitted and \<open>shutdown\<close> sets the flag before the background thread has tested the
  condition of its outer loop; the thread then tests it and returns, and \<open>join\<close> returns.
\<close>

definition lost_records_schedule :: "action list" where
  "lost_records_schedule =
     [CallInit WARN ''app.log'' True,
      example_log, CallLog EROR ''disk full'' ''/a/b/c.cpp'' ''poll'' 57,
      ShutdownStop, Consume (example_env 7), ShutdownJoin]"

text \<open>
  The same two records, but the background thread has entered its loop and popped the
  first record when \<open>shutdown\<close> sets the flag: it writes the first record, pops and
  writes the second, finds the queue empty, sees the flag and returns, and \<open>join\<close>
  returns.
\<close>

definition late_stop_schedule :: "action list" where
  "late_stop_schedule =
     two_records_schedule @
     [Consume (example_env 7), ShutdownStop,
      Consume (example_env 7), Consume (example_env 7), Consume (example_env 8),
      Consume (example_env 8), Consume (example_env 8), Consume (example_env 8),
      Consume (example_env 8), ShutdownJoin]"


section \<open>The formatter\<close>

subsection \<open>The file name of a path\<close>

lemma takeWhile_rev_all: "\<forall>x\<in>set xs. P x \<Longrightarrow> takeWhile P (rev xs) = rev xs"
  by (simp add: takeWhile_eq_all_conv)

lemma takeWhile_snoc_stop:
  "\<not> P c \<Longrightarrow> \<forall>x\<in>set xs. P x \<Longrightarrow> takeWhile P (rev xs @ [c]) = rev xs"
  using takeWhile_append2 [of "rev xs" P "[c]"] by auto

lemma takeWhile_snoc_skip:
  "\<exists>x\<in>set xs. \<not> P x \<Longrightarrow> takeWhile P (rev xs @ [c]) = takeWhile P (rev xs)"
  by (auto simp: takeWhile_append1)

text \<open>
  The loop keeps the candidate it was given until it meets a slash; from then on its
  result is the longest slash-free suffix of the text it has still to read.
\<close>

lemma extractFilename_loop_eq:
  "extractFilename_loop f r =
     (if \<exists>c\<in>set r. is_slash c then rev (takeWhile (\<lambda>c. \<not> is_slash c) (rev r)) else f)"
proof (induction r arbitrary: f)
  case Nil
  show ?case by simp
next
  case (Cons c rest)
  show ?case
  proof (cases "\<exists>x\<in>set rest. is_slash x")
    case True
    then have "\<exists>x\<in>set rest. \<not> \<not> is_slash x" by simp
    from takeWhile_snoc_skip [OF this] True Cons.IH [of rest] Cons.IH [of f]
    show ?thesis by simp
  next
    case no_later: False
    then have all: "\<forall>x\<in>set rest. \<not> is_slash x" by simp
    show ?thesis
    proof (cases "is_slash c")
      case True
      from takeWhile_snoc_stop [of "\<lambda>c. \<not> is_slash c" c, OF _ all] True no_later Cons.IH [of rest]
      show ?thesis by simp
    next
      case False
      with no_later Cons.IH [of f] show ?thesis by simp
    qed
  qed
qed

lemma extractFilename_eq:
  "extractFilename p = rev (takeWhile (\<lambda>c. \<not> is_slash c) (rev p))"
proof (cases "\<exists>c\<in>set p. is_slash c")
  case True
  then show ?thesis by (simp add: extractFilename_def extractFilename_loop_eq)
next
  case False
  then have "\<forall>x\<in>set p. \<not> is_slash x" by simp
  from takeWhile_rev_all [of p "\<lambda>c. \<not> is_slash c", OF this]
  have "rev (takeWhile (\<lambda>c. \<not> is_slash c) (rev p)) = rev (rev p)" by (rule arg_cong)
  moreover have "extractFilename p = p"
    using False by (simp add: extractFilename_def extractFilename_loop_eq)
  ultimately show ?thesis by simp
qed

lemma extractFilename_no_slash: "list_all (\<lambda>c. \<not> is_slash c) (extractFilename p)"
  unfolding extractFilename_eq list_all_iff by (auto dest: set_takeWhileD)

lemma extractFilename_after_slash:
  assumes "\<exists>c\<in>set p. is_slash c"
  shows "\<exists>pre c. is_slash c \<and> p = pre @ [c] @ extractFilename p"
proof -
  let ?P = "\<lambda>c. \<not> is_slash c"
  have ne: "dropWhile ?P (rev p) \<noteq> []"
    using assms by (auto simp: dropWhile_eq_Nil_conv)
  then obtain c r where cr: "dropWhile ?P (rev p) = c # r"
    by (cases "dropWhile ?P (rev p)") auto
  have sl: "is_slash c"
    using hd_dropWhile [OF ne] cr by simp
  have "rev p = takeWhile ?P (rev p) @ c # r"
    using cr by (metis takeWhile_dropWhile_id)
  then have "rev (rev p) = rev (takeWhile ?P (rev p) @ c # r)"
    by simp
  then have "p = rev r @ [c] @ extractFilename p"
    by (simp add: extractFilename_eq)
  with sl show ?thesis by blast
qed

lemma extractFilename_plain:
  assumes "\<forall>c\<in>set p. \<not> is_slash c"
  shows "extractFilename p = p"
  using assms by (simp add: extractFilename_def extractFilename_loop_eq)

text \<open>
  C6. The file name that \<open>_extractFilename\<close> returns contains no slash of either kind;
  when the path contains a slash, the path is some prefix, then a slash, then the file
  name, so the file name is what follows the last slash; a path without a slash is
  returned as it is.
\<close>

theorem extractFilename_last_segment:
  "list_all (\<lambda>c. \<not> is_slash c) (extractFilename p)
   \<and> (list_ex is_slash p \<longrightarrow> (\<exists>pre c. is_slash c \<and> p = pre @ [c] @ extractFilename p))
   \<and> (\<not> list_ex is_slash p \<longrightarrow> extractFilename p = p)"
  using extractFilename_no_slash [of p] extractFilename_after_slash [of p]
    extractFilename_plain [of p]
  unfolding list_ex_iff by blast

theorem extractFilename_last_segment_witness:
  "list_ex is_slash [CHR ''/'', CHR ''a'', CHR 0x5C, CHR ''b'']
   \<and> (\<exists>pre c. is_slash c \<and> [CHR ''/'', CHR ''a'', CHR 0x5C, CHR ''b''] =
        pre @ [c] @ extractFilename [CHR ''/'', CHR ''a'', CHR 0x5C, CHR ''b''])
   \<and> extractFilename [CHR ''/'', CHR ''a'', CHR 0x5C, CHR ''b''] = ''b''
   \<and> \<not> list_ex is_slash ''c.cpp''
   \<and> extractFilename ''c.cpp'' = ''c.cpp''"
proof -
  have a: "list_ex is_slash [CHR ''/'', CHR ''a'', CHR 0x5C, CHR ''b'']"
    by (simp add: is_slash_def)
  have b: "\<not> list_ex is_slash ''c.cpp''"
    by (simp add: is_slash_def)
  have c: "extractFilename [CHR ''/'', CHR ''a'', CHR 0x5C, CHR ''b''] = ''b''"
    by (simp add: extractFilename_def is_slash_def)
  from a b c extractFilename_last_segment [of "[CHR ''/'', CHR ''a'', CHR 0x5C, CHR ''b'']"]
    extractFilename_last_segment [of "''c.cpp''"]
  show ?thesis by blast
qed

subsection \<open>The layout of a line\<close>

lemma example_time: "put_time (now_tm (example_env t)) = ''2024-06-22 10:00:00''"
  unfolding example_env_def by code_simp

lemma example_ms: "setw_fill 3 (CHR ''0'') (show_int (now_ms (example_env t))) = ''500''"
  unfolding example_env_def by code_simp

lemma example_basename: "extractFilename ''/a/b/c.cpp'' = ''c.cpp''"
  by code_simp

lemma example_line: "show_int 42 = ''42''"
  by code_simp

lemma digit_char_0: "digit_char 0 = CHR ''0''"
  by (simp add: digit_char_def)

lemma length_fixed_digits: "length (fixed_digits w n) = w"
  by (induction w arbitrary: n) simp_all

lemma fixed_digits_are_digits: "list_all (\<lambda>c. c \<in> set ''0123456789'') (fixed_digits w n)"
proof (induction w arbitrary: n)
  case 0
  show ?case by simp
next
  case (Suc w)
  have "n mod 10 < length ''0123456789''" by simp
  then have "''0123456789'' ! (n mod 10) \<in> set ''0123456789''"
    by (rule nth_mem)
  then have "digit_char (n mod 10) \<in> set ''0123456789''"
    by (simp only: digit_char_def mod_mod_trivial)
  with Suc [of "n div 10"] show ?case by simp
qed

lemma show_nat_small: "n < 10 \<Longrightarrow> show_nat n = [digit_char n]"
  by (simp add: show_nat.simps)

lemma show_nat_large: "10 \<le> n \<Longrightarrow> show_nat n = show_nat (n div 10) @ [digit_char (n mod 10)]"
  by (subst show_nat.simps) simp

text \<open>A number below \<open>10 ^ w\<close> padded to \<open>w\<close> places shows its \<open>w\<close> digits.\<close>

lemma fixed_digits_pad:
  "n < 10 ^ Suc w \<Longrightarrow>
   fixed_digits (Suc w) n = replicate (Suc w - length (show_nat n)) (CHR ''0'') @ show_nat n"
proof (induction w arbitrary: n)
  case 0
  then show ?case by (simp add: show_nat_small)
next
  case (Suc w)
  from Suc.prems have small: "n div 10 < 10 ^ Suc w" by simp
  note ih = Suc.IH [OF small]
  show ?case
  proof (cases "n < 10")
    case True
    then have z: "n div 10 = 0" by simp
    have "fixed_digits (Suc (Suc w)) n = fixed_digits (Suc w) 0 @ [digit_char n]"
      using True z by simp
    also have "fixed_digits (Suc w) 0 = replicate (Suc w) (CHR ''0'')"
      using Suc.IH [of 0] by (simp add: show_nat_small digit_char_0 replicate_append_same)
    finally show ?thesis
      using True by (simp add: show_nat_small)
  next
    case False
    then have big: "10 \<le> n" by simp
    have "fixed_digits (Suc (Suc w)) n = fixed_digits (Suc w) (n div 10) @ [digit_char (n mod 10)]"
      by simp
    also have "\<dots> = replicate (Suc w - length (show_nat (n div 10))) (CHR ''0'')
        @ show_nat (n div 10) @ [digit_char (n mod 10)]"
      by (simp only: ih append_assoc)
    finally show ?thesis
      by (simp add: show_nat_large [OF big])
  qed
qed

lemma show_nat_length: "10 ^ k \<le> n \<Longrightarrow> k < length (show_nat n)"
proof (induction k arbitrary: n)
  case 0
  show ?case by (subst show_nat.simps) simp
next
  case (Suc k)
  then have big: "10 \<le> n"
    by (metis One_nat_def le_trans one_le_numeral one_le_power power_Suc mult.right_neutral mult_le_mono2)
  from Suc.prems have "10 ^ k \<le> n div 10" by simp
  from Suc.IH [OF this] show ?case
    by (simp add: show_nat_large [OF big])
qed

text \<open>A number of exactly \<open>w\<close> digits is shown as its \<open>w\<close> digits.\<close>

lemma show_nat_exact:
  assumes "10 ^ w \<le> n" and "n < 10 ^ Suc w"
  shows "show_nat n = fixed_digits (Suc w) n"
proof -
  from show_nat_length [OF assms(1)] have "Suc w \<le> length (show_nat n)" by simp
  then have "Suc w - length (show_nat n) = 0" by simp
  with fixed_digits_pad [OF assms(2)] show ?thesis by simp
qed


lemma show_nat_bound: "n < 10 ^ length (show_nat n)"
proof (induction n rule: show_nat.induct)
  case (1 n)
  show ?case
  proof (cases "n < 10")
    case True
    then show ?thesis by (simp add: show_nat_small)
  next
    case False
    then have big: "10 \<le> n" by simp
    from 1 [OF False] have "n div 10 < 10 ^ length (show_nat (n div 10))" .
    then have "n < 10 * 10 ^ length (show_nat (n div 10))"
      by simp
    then show ?thesis
      by (simp add: show_nat_large [OF big])
  qed
qed

lemma show_nat_minimal: "0 < n \<Longrightarrow> 10 ^ (length (show_nat n) - 1) \<le> n"
proof (induction n rule: show_nat.induct)
  case (1 n)
  show ?case
  proof (cases "n < 10")
    case True
    with 1(2) show ?thesis by (simp add: show_nat_small)
  next
    case False
    then have big: "10 \<le> n" by simp
    then have pos: "0 < n div 10" by simp
    from 1(1) [OF False pos] have "10 ^ (length (show_nat (n div 10)) - 1) \<le> n div 10" .
    then have "10 * 10 ^ (length (show_nat (n div 10)) - 1) \<le> n"
      by simp
    moreover have "0 < length (show_nat (n div 10))"
      using show_nat_length [of 0 "n div 10"] pos by simp
    ultimately have "10 ^ length (show_nat (n div 10)) \<le> n"
      by (cases "length (show_nat (n div 10))") simp_all
    then show ?thesis
      by (simp add: show_nat_large [OF big])
  qed
qed

lemma show_nat_decimal: "show_nat n = fixed_digits (length (show_nat n)) n"
proof -
  have "0 < length (show_nat n)"
    using show_nat_length [of 0 n] by (cases "n = 0") (simp_all add: show_nat_small)
  then obtain w where w: "length (show_nat n) = Suc w"
    by (cases "length (show_nat n)") auto
  from show_nat_bound [of n] w have "n < 10 ^ Suc w" by simp
  from fixed_digits_pad [OF this] w show ?thesis by simp
qed

lemma two_digits_fixed:
  assumes "0 \<le> i" and "i \<le> 99"
  shows "two_digits i = fixed_digits 2 (nat i)"
proof (cases "i < 10")
  case True
  with assms have n: "nat i < 10" by simp
  have "fixed_digits 2 (nat i) = [digit_char 0, digit_char (nat i)]"
    using n by (simp add: numeral_2_eq_2)
  with True assms n show ?thesis
    by (simp add: two_digits_def show_int_def show_nat_small digit_char_0)
next
  case False
  with assms have "10 ^ 1 \<le> nat i" and "nat i < 10 ^ Suc 1" by simp_all
  from show_nat_exact [OF this] have "show_nat (nat i) = fixed_digits 2 (nat i)"
    by (simp add: numeral_2_eq_2)
  with False assms show ?thesis
    by (simp add: two_digits_def show_int_def)
qed

lemma milliseconds_fixed:
  assumes "0 \<le> m" and "m \<le> 999"
  shows "setw_fill 3 (CHR ''0'') (show_int m) = fixed_digits 3 (nat m)"
proof -
  from assms have "nat m < 10 ^ Suc 2" by simp
  from fixed_digits_pad [OF this] assms show ?thesis
    by (simp add: setw_fill_def show_int_def numeral_3_eq_3)
qed

lemma year_fixed:
  assumes "1000 \<le> y" and "y \<le> 9999"
  shows "show_int y = fixed_digits 4 (nat y)"
proof -
  from assms have "10 ^ 3 \<le> nat y" and "nat y < 10 ^ Suc 3" by simp_all
  from show_nat_exact [OF this] have "show_nat (nat y) = fixed_digits (Suc 3) (nat y)" .
  moreover have "Suc 3 = 4" by simp
  ultimately show ?thesis
    using assms by (simp add: show_int_def)
qed

lemma put_time_fixed:
  assumes "valid_time e"
  shows "put_time (now_tm e) =
     fixed_digits 4 (nat (tm_year (now_tm e) + 1900)) @ ''-''
     @ fixed_digits 2 (nat (tm_mon (now_tm e) + 1)) @ ''-''
     @ fixed_digits 2 (nat (tm_mday (now_tm e))) @ '' ''
     @ fixed_digits 2 (nat (tm_hour (now_tm e))) @ '':''
     @ fixed_digits 2 (nat (tm_min (now_tm e))) @ '':''
     @ fixed_digits 2 (nat (tm_sec (now_tm e)))"
proof -
  from assms have y: "show_int (tm_year (now_tm e) + 1900) = fixed_digits 4 (nat (tm_year (now_tm e) + 1900))"
    by (intro year_fixed) (simp_all add: valid_time_def)
  from assms have mo: "two_digits (tm_mon (now_tm e) + 1) = fixed_digits 2 (nat (tm_mon (now_tm e) + 1))"
    by (intro two_digits_fixed) (simp_all add: valid_time_def)
  from assms have d: "two_digits (tm_mday (now_tm e)) = fixed_digits 2 (nat (tm_mday (now_tm e)))"
    by (intro two_digits_fixed) (simp_all add: valid_time_def)
  from assms have h: "two_digits (tm_hour (now_tm e)) = fixed_digits 2 (nat (tm_hour (now_tm e)))"
    by (intro two_digits_fixed) (simp_all add: valid_time_def)
  from assms have mi: "two_digits (tm_min (now_tm e)) = fixed_digits 2 (nat (tm_min (now_tm e)))"
    by (intro two_digits_fixed) (simp_all add: valid_time_def)
  from assms have s: "two_digits (tm_sec (now_tm e)) = fixed_digits 2 (nat (tm_sec (now_tm e)))"
    by (intro two_digits_fixed) (simp_all add: valid_time_def)
  show ?thesis
    unfolding put_time_def y mo d h mi s by simp
qed

text \<open>
  C5, as the code has it. The formatter is a function of the record and of the time and
  thread id it reads. For a capture time with a year of four digits and a millisecond
  part from 0 to 999, its line is
  \<open>[YYYY-MM-DD HH:MM:SS.mmm] [LEVEL][tid]: message (basename function:line)\<close> and a line
  feed: each of \<open>YYYY\<close>, \<open>MM\<close>, \<open>DD\<close>, \<open>HH\<close>, \<open>MM\<close>, \<open>SS\<close> and \<open>mmm\<close> is a field of that
  many decimal digits, padded with zeros; \<open>LEVEL\<close> is \<open>DBUG\<close>, \<open>INFO\<close>, \<open>WARN\<close> or \<open>EROR\<close>;
  the thread id and a line number that is not negative are in decimal without padding;
  there is no space between the level and
  the thread id, and a space, not a colon, between the file name and the function. For
  the record of the example, on any thread \<open>t\<close>, the line begins with
  \<open>[2024-06-22 10:00:00.500] [WARN]\<close> and ends with \<open>(c.cpp poll:42)\<close> before the line feed.
\<close>

theorem formatLogMessage_layout:
  "(valid_time e \<longrightarrow>
      formatLogMessage e level message path func ln =
        ''['' @ fixed_digits 4 (nat (tm_year (now_tm e) + 1900)) @ ''-''
        @ fixed_digits 2 (nat (tm_mon (now_tm e) + 1)) @ ''-''
        @ fixed_digits 2 (nat (tm_mday (now_tm e))) @ '' ''
        @ fixed_digits 2 (nat (tm_hour (now_tm e))) @ '':''
        @ fixed_digits 2 (nat (tm_min (now_tm e))) @ '':''
        @ fixed_digits 2 (nat (tm_sec (now_tm e))) @ ''.''
        @ fixed_digits 3 (nat (now_ms e))
        @ ''] ['' @ (case level of DBUG \<Rightarrow> ''DBUG'' | INFO \<Rightarrow> ''INFO'' | WARN \<Rightarrow> ''WARN'' | EROR \<Rightarrow> ''EROR'')
        @ '']['' @ show_nat (thread_id e) @ '']: '' @ message
        @ '' ('' @ extractFilename path @ '' '' @ func @ '':'' @ show_int ln @ '')'' @ [CHR 0x0A])
   \<and> length (fixed_digits w n) = w
   \<and> list_all (\<lambda>c. c \<in> set ''0123456789'') (fixed_digits w n)
   \<and> show_nat n = fixed_digits (length (show_nat n)) n
   \<and> (0 < n \<longrightarrow> 10 ^ (length (show_nat n) - 1) \<le> n)
   \<and> (0 \<le> ln \<longrightarrow> show_int ln = show_nat (nat ln))
   \<and> formatLogMessage (example_env t) WARN ''disk low'' ''/a/b/c.cpp'' ''poll'' 42 =
     ''[2024-06-22 10:00:00.500] [WARN]['' @ show_nat t @ '']: disk low (c.cpp poll:42)'' @ newline"
proof (intro conjI impI)
  assume v: "valid_time e"
  then have ms: "setw_fill 3 (CHR ''0'') (show_int (now_ms e)) = fixed_digits 3 (nat (now_ms e))"
    by (intro milliseconds_fixed) (simp_all add: valid_time_def)
  have lv: "logLevelToString level =
      (case level of DBUG \<Rightarrow> ''DBUG'' | INFO \<Rightarrow> ''INFO'' | WARN \<Rightarrow> ''WARN'' | EROR \<Rightarrow> ''EROR'')"
    by (cases level) simp_all
  show "formatLogMessage e level message path func ln =
        ''['' @ fixed_digits 4 (nat (tm_year (now_tm e) + 1900)) @ ''-''
        @ fixed_digits 2 (nat (tm_mon (now_tm e) + 1)) @ ''-''
        @ fixed_digits 2 (nat (tm_mday (now_tm e))) @ '' ''
        @ fixed_digits 2 (nat (tm_hour (now_tm e))) @ '':''
        @ fixed_digits 2 (nat (tm_min (now_tm e))) @ '':''
        @ fixed_digits 2 (nat (tm_sec (now_tm e))) @ ''.''
        @ fixed_digits 3 (nat (now_ms e))
        @ ''] ['' @ (case level of DBUG \<Rightarrow> ''DBUG'' | INFO \<Rightarrow> ''INFO'' | WARN \<Rightarrow> ''WARN'' | EROR \<Rightarrow> ''EROR'')
        @ '']['' @ show_nat (thread_id e) @ '']: '' @ message
        @ '' ('' @ extractFilename path @ '' '' @ func @ '':'' @ show_int ln @ '')'' @ [CHR 0x0A]"
    unfolding formatLogMessage_def put_time_fixed [OF v] ms lv newline_def by simp
next
  show "length (fixed_digits w n) = w"
    by (rule length_fixed_digits)
  show "list_all (\<lambda>c. c \<in> set ''0123456789'') (fixed_digits w n)"
    by (rule fixed_digits_are_digits)
  show "show_nat n = fixed_digits (length (show_nat n)) n"
    by (rule show_nat_decimal)
  show "0 < n \<Longrightarrow> 10 ^ (length (show_nat n) - 1) \<le> n"
    by (rule show_nat_minimal)
  show "0 \<le> ln \<Longrightarrow> show_int ln = show_nat (nat ln)"
    by (simp add: show_int_def)
  have "thread_id (example_env t) = t"
    by (simp add: example_env_def)
  then show "formatLogMessage (example_env t) WARN ''disk low'' ''/a/b/c.cpp'' ''poll'' 42 =
     ''[2024-06-22 10:00:00.500] [WARN]['' @ show_nat t @ '']: disk low (c.cpp poll:42)'' @ newline"
    by (simp add: formatLogMessage_def example_time example_ms example_basename example_line)
qed

lemma example_valid: "valid_time (example_env t)"
  by (simp add: valid_time_def example_env_def)

lemma example_fields:
  "fixed_digits 4 2024 = ''2024''" "fixed_digits 2 6 = ''06''" "fixed_digits 2 22 = ''22''"
  "fixed_digits 2 10 = ''10''" "fixed_digits 2 0 = ''00''" "fixed_digits 3 500 = ''500''"
  by code_simp+

lemma example_thread: "show_nat 4242 = ''4242''"
  by code_simp

theorem formatLogMessage_layout_witness:
  "valid_time (example_env 4242)
   \<and> formatLogMessage (example_env 4242) WARN ''disk low'' ''/a/b/c.cpp'' ''poll'' 42 =
     ''[2024-06-22 10:00:00.500] [WARN][4242]: disk low (c.cpp poll:42)'' @ [CHR 0x0A]
   \<and> 0 < (4242::nat) \<and> 10 ^ (length (show_nat 4242) - 1) \<le> (4242::nat)
   \<and> (0::int) \<le> 42 \<and> show_int 42 = show_nat (nat 42)"
proof -
  from formatLogMessage_layout [where n = 4242 and ln = 42]
  have digits: "10 ^ (length (show_nat 4242) - 1) \<le> (4242::nat)"
    and line: "show_int 42 = show_nat (nat 42)"
    by simp_all
  note v = example_valid [of 4242]
  from formatLogMessage_layout [where e = "example_env 4242" and level = WARN
      and message = "''disk low''" and path = "''/a/b/c.cpp''" and func = "''poll''" and ln = 42] v
  have "formatLogMessage (example_env 4242) WARN ''disk low'' ''/a/b/c.cpp'' ''poll'' 42 =
        ''['' @ fixed_digits 4 (nat (tm_year (now_tm (example_env 4242)) + 1900)) @ ''-''
        @ fixed_digits 2 (nat (tm_mon (now_tm (example_env 4242)) + 1)) @ ''-''
        @ fixed_digits 2 (nat (tm_mday (now_tm (example_env 4242)))) @ '' ''
        @ fixed_digits 2 (nat (tm_hour (now_tm (example_env 4242)))) @ '':''
        @ fixed_digits 2 (nat (tm_min (now_tm (example_env 4242)))) @ '':''
        @ fixed_digits 2 (nat (tm_sec (now_tm (example_env 4242)))) @ ''.''
        @ fixed_digits 3 (nat (now_ms (example_env 4242)))
        @ ''] ['' @ (case WARN of DBUG \<Rightarrow> ''DBUG'' | INFO \<Rightarrow> ''INFO'' | WARN \<Rightarrow> ''WARN'' | EROR \<Rightarrow> ''EROR'')
        @ '']['' @ show_nat (thread_id (example_env 4242)) @ '']: '' @ ''disk low''
        @ '' ('' @ extractFilename ''/a/b/c.cpp'' @ '' '' @ ''poll'' @ '':'' @ show_int 42 @ '')'' @ [CHR 0x0A]"
    by blast
  also have "\<dots> = ''[2024-06-22 10:00:00.500] [WARN][4242]: disk low (c.cpp poll:42)'' @ [CHR 0x0A]"
    by (simp add: example_env_def example_fields example_thread example_basename example_line)
  finally show ?thesis
    using v digits line by simp
qed

text \<open>
  The line of the example is not the documented layout, with or without a line feed after
  it: the two differ after \<open>[WARN]\<close>.
\<close>

theorem documented_layout_counterexample:
  "formatLogMessage (example_env 4242) WARN ''disk low'' ''/a/b/c.cpp'' ''poll'' 42
     \<noteq> documented_layout (example_env 4242) WARN ''disk low'' ''/a/b/c.cpp'' ''poll'' 42
   \<and> formatLogMessage (example_env 4242) WARN ''disk low'' ''/a/b/c.cpp'' ''poll'' 42
     \<noteq> documented_layout (example_env 4242) WARN ''disk low'' ''/a/b/c.cpp'' ''poll'' 42 @ newline"
  by (simp add: formatLogMessage_def documented_layout_def)


section \<open>The calls and the background thread\<close>

subsection \<open>One action\<close>

lemma file_text_Nil [simp]: "file_text [] = []"
  by (simp add: file_text_def)

lemma console_text_Nil [simp]: "console_text [] = []"
  by (simp add: console_text_def)

lemma file_text_append: "file_text (h1 @ h2) = file_text h1 @ file_text h2"
  by (simp add: file_text_def)

lemma console_text_append: "console_text (h1 @ h2) = console_text h1 @ console_text h2"
  by (simp add: console_text_def)

lemma submitted_Cons:
  "submitted thr stopped (a # as) =
     submitted thr stopped [a] @ submitted thr (stopped \<or> a = ShutdownStop) as"
  by (cases a) simp_all

text \<open>
  What one step of the background thread does to the records on their way and to the two
  sinks: only the step from \<open>Write entry\<close> writes, and it writes that record.
\<close>

lemma thread_step_effect:
  assumes "tAsyncThread s = Some pc" and "thread_step e pc s = Some s'"
  shows "\<exists>h. map snd h @ pending s' = pending s
     \<and> written (tFileStream s') =
         written (tFileStream s) @ (if is_open (tFileStream s) then file_text h else [])
     \<and> cout s' = cout s @ console_text h
     \<and> is_open (tFileStream s') = is_open (tFileStream s)
     \<and> eLogLevel s' = eLogLevel s \<and> bStopThread s' = bStopThread s"
proof (cases pc)
  case (Write entry)
  with assms have s': "s' = (write_entry e entry s)\<lparr>tAsyncThread := Some Relock\<rparr>"
    by simp
  have "map snd [(e, entry)] @ pending s' = pending s"
    using assms(1) Write by (simp add: s' pending_def write_entry_def Let_def)
  moreover have "written (tFileStream s') =
      written (tFileStream s) @ (if is_open (tFileStream s) then file_text [(e, entry)] else [])"
    by (simp add: s' write_entry_def Let_def file_text_def)
  moreover have "cout s' = cout s @ console_text [(e, entry)]"
    by (simp add: s' write_entry_def Let_def console_text_def)
  moreover have "is_open (tFileStream s') = is_open (tFileStream s)"
    by (simp add: s' write_entry_def Let_def)
  moreover have "eLogLevel s' = eLogLevel s \<and> bStopThread s' = bStopThread s"
    by (simp add: s' write_entry_def Let_def)
  ultimately show ?thesis by blast
next
  case InnerHead
  with assms have "map snd [] @ pending s' = pending s
     \<and> written (tFileStream s') = written (tFileStream s) @ (if is_open (tFileStream s) then file_text [] else [])
     \<and> cout s' = cout s @ console_text []
     \<and> is_open (tFileStream s') = is_open (tFileStream s)
     \<and> eLogLevel s' = eLogLevel s \<and> bStopThread s' = bStopThread s"
    by (auto simp: pending_def split: list.splits)
  then show ?thesis by blast
qed (use assms in \<open>force simp: pending_def split: if_splits intro: exI [of _ "[]"]\<close>)+


text \<open>The same for every action other than \<open>init\<close> that returns or throws.\<close>

lemma exec_effect:
  assumes "\<not> is_init a" and "exec a s = (r, s')" and "r = Returned \<or> (\<exists>x. r = Thrown x)"
  shows "\<exists>h. map snd h @ pending s' = pending s @ submitted (eLogLevel s) (bStopThread s) [a]
     \<and> written (tFileStream s') =
         written (tFileStream s) @ (if is_open (tFileStream s) then file_text h else [])
     \<and> cout s' = cout s @ console_text h
     \<and> is_open (tFileStream s') = is_open (tFileStream s)
     \<and> eLogLevel s' = eLogLevel s
     \<and> bStopThread s' = (bStopThread s \<or> a = ShutdownStop)"
proof (cases a)
  case (CallInit level filename can_open)
  with assms(1) show ?thesis by simp
next
  case (CallLog lvl msg path func ln)
  with assms(2,3) have "map snd [] @ pending s' = pending s @ submitted (eLogLevel s) (bStopThread s) [a]
     \<and> written (tFileStream s') = written (tFileStream s) @ (if is_open (tFileStream s) then file_text [] else [])
     \<and> cout s' = cout s @ console_text []
     \<and> is_open (tFileStream s') = is_open (tFileStream s)
     \<and> eLogLevel s' = eLogLevel s
     \<and> bStopThread s' = (bStopThread s \<or> a = ShutdownStop)"
    by (auto simp: log_def pending_def split: if_splits)
  then show ?thesis by blast
next
  case ShutdownStop
  with assms(2,3) have "map snd [] @ pending s' = pending s @ submitted (eLogLevel s) (bStopThread s) [a]
     \<and> written (tFileStream s') = written (tFileStream s) @ (if is_open (tFileStream s) then file_text [] else [])
     \<and> cout s' = cout s @ console_text []
     \<and> is_open (tFileStream s') = is_open (tFileStream s)
     \<and> eLogLevel s' = eLogLevel s
     \<and> bStopThread s' = (bStopThread s \<or> a = ShutdownStop)"
    by (auto simp: shutdown_stop_def pending_def split: if_splits)
  then show ?thesis by blast
next
  case ShutdownJoin
  with assms(2,3) have "map snd [] @ pending s' = pending s @ submitted (eLogLevel s) (bStopThread s) [a]
     \<and> written (tFileStream s') = written (tFileStream s) @ (if is_open (tFileStream s) then file_text [] else [])
     \<and> cout s' = cout s @ console_text []
     \<and> is_open (tFileStream s') = is_open (tFileStream s)
     \<and> eLogLevel s' = eLogLevel s
     \<and> bStopThread s' = (bStopThread s \<or> a = ShutdownStop)"
    by (auto simp: shutdown_join_def pending_def split: if_splits option.splits)
  then show ?thesis by blast
next
  case (Consume e)
  with assms(2,3) obtain pc where pc: "tAsyncThread s = Some pc" and st: "thread_step e pc s = Some s'"
    by (auto simp: processLogQueue_step_def split: option.splits)
  from thread_step_effect [OF pc st] Consume show ?thesis by simp
qed

lemma run_Cons_Some:
  assumes "run (a # as) s = Some s''"
  obtains r s' where "exec a s = (r, s')" and "r = Returned \<or> (\<exists>x. r = Thrown x)"
    and "run as s' = Some s''"
proof (cases "exec a s")
  case (Pair r s')
  with assms have "(r = Returned \<or> (\<exists>x. r = Thrown x)) \<and> run as s' = Some s''"
    by (cases r) simp_all
  with Pair that show ?thesis by blast
qed

text \<open>
  Along every schedule without \<open>init\<close>: the records written, followed by the records on
  their way, are the records that were on their way at the start followed by the records
  submitted since; the file and the console hold the lines of the records written, in
  that order.
\<close>

lemma run_effect:
  assumes "list_all (\<lambda>a. \<not> is_init a) as" and "run as s = Some s'"
  shows "\<exists>hist. map snd hist @ pending s' = pending s @ submitted (eLogLevel s) (bStopThread s) as
     \<and> written (tFileStream s') =
         written (tFileStream s) @ (if is_open (tFileStream s) then file_text hist else [])
     \<and> cout s' = cout s @ console_text hist"
  using assms
proof (induction as arbitrary: s)
  case Nil
  then have "map snd [] @ pending s' = pending s @ submitted (eLogLevel s) (bStopThread s) []
     \<and> written (tFileStream s') = written (tFileStream s) @ (if is_open (tFileStream s) then file_text [] else [])
     \<and> cout s' = cout s @ console_text []"
    by simp
  then show ?case by blast
next
  case (Cons a as)
  from Cons.prems(2) obtain r s1 where ex: "exec a s = (r, s1)"
    and ok: "r = Returned \<or> (\<exists>x. r = Thrown x)" and rest: "run as s1 = Some s'"
    by (rule run_Cons_Some)
  from Cons.prems(1) have ni: "\<not> is_init a" and nis: "list_all (\<lambda>a. \<not> is_init a) as"
    by simp_all
  from exec_effect [OF ni ex ok] obtain h where
    h1: "map snd h @ pending s1 = pending s @ submitted (eLogLevel s) (bStopThread s) [a]"
    and h2: "written (tFileStream s1) =
         written (tFileStream s) @ (if is_open (tFileStream s) then file_text h else [])"
    and h3: "cout s1 = cout s @ console_text h"
    and h4: "is_open (tFileStream s1) = is_open (tFileStream s)"
    and h5: "eLogLevel s1 = eLogLevel s"
    and h6: "bStopThread s1 = (bStopThread s \<or> a = ShutdownStop)"
    by blast
  from Cons.IH [OF nis rest] obtain hist where
    i1: "map snd hist @ pending s' = pending s1 @ submitted (eLogLevel s1) (bStopThread s1) as"
    and i2: "written (tFileStream s') =
         written (tFileStream s1) @ (if is_open (tFileStream s1) then file_text hist else [])"
    and i3: "cout s' = cout s1 @ console_text hist"
    by blast
  have "map snd (h @ hist) @ pending s' = map snd h @ (map snd hist @ pending s')"
    by simp
  also have "\<dots> = (map snd h @ pending s1) @ submitted (eLogLevel s1) (bStopThread s1) as"
    by (simp add: i1)
  also have "\<dots> = pending s @ submitted (eLogLevel s) (bStopThread s) [a]
      @ submitted (eLogLevel s) (bStopThread s \<or> a = ShutdownStop) as"
    by (simp add: h1 h5 h6)
  also have "\<dots> = pending s @ submitted (eLogLevel s) (bStopThread s) (a # as)"
    by (simp add: submitted_Cons [of _ _ a as])
  finally have g1: "map snd (h @ hist) @ pending s' =
      pending s @ submitted (eLogLevel s) (bStopThread s) (a # as)" .
  have g2: "written (tFileStream s') =
      written (tFileStream s) @ (if is_open (tFileStream s) then file_text (h @ hist) else [])"
    by (simp add: i2 h2 h4 file_text_append)
  have g3: "cout s' = cout s @ console_text (h @ hist)"
    by (simp add: i3 h3 console_text_append)
  from g1 g2 g3 show ?case by blast
qed


subsection \<open>After \<open>init\<close>\<close>

lemma init_fresh:
  "init thr filename can_open (Logger_ctor out) =
     (Returned,
      \<lparr>bStopThread = False, tMutex = None, eLogLevel = thr, tAsyncThread = Some LoopHead,
       tFileStream = \<lparr>is_open = can_open, written = []\<rparr>, eConsoleColorThreshold = WARN,
       LogQueue = [], cout = out\<rparr>)"
  by (simp add: init_def Logger_ctor_def setLogLevel_def setLogFile_def)

lemma submitted_accepted:
  "list_all (accepted_call thr) calls \<Longrightarrow>
   submitted thr False (calls @ rest) = logged calls @ submitted thr False rest"
proof (induction calls)
  case Nil
  show ?case by simp
next
  case (Cons a calls)
  then show ?case by (cases a) simp_all
qed

lemma submitted_closing: "list_all closing_action closing \<Longrightarrow> submitted thr stopped closing = []"
proof (induction closing arbitrary: stopped)
  case Nil
  show ?case by simp
next
  case (Cons a closing)
  then show ?case by (cases a) simp_all
qed

lemma accepted_not_init: "list_all (accepted_call thr) as \<Longrightarrow> list_all (\<lambda>a. \<not> is_init a) as"
proof (induction as)
  case Nil
  show ?case by simp
next
  case (Cons a as)
  then show ?case by (cases a) simp_all
qed

lemma closing_not_init: "list_all closing_action as \<Longrightarrow> list_all (\<lambda>a. \<not> is_init a) as"
proof (induction as)
  case Nil
  show ?case by simp
next
  case (Cons a as)
  then show ?case by (cases a) simp_all
qed

lemma submitted_levels:
  "list_all (\<lambda>entry. level_value thr \<le> level_value (fst entry)) (submitted thr stopped as)"
proof (induction as arbitrary: stopped)
  case Nil
  show ?case by simp
next
  case (Cons a as)
  then show ?case by (cases a) simp_all
qed

lemmas run_simps =
  log_def shutdown_stop_def shutdown_join_def processLogQueue_step_def write_entry_def Let_def

lemma example_run:
  "run (example_calls @ example_closing) (snd (init WARN ''app.log'' can_open (Logger_ctor []))) =
     Some \<lparr>bStopThread = True, tMutex = None, eLogLevel = WARN, tAsyncThread = None,
       tFileStream = \<lparr>is_open = can_open,
         written = (if can_open then format_entry (example_env 7) example_entry else [])\<rparr>,
       eConsoleColorThreshold = WARN, LogQueue = [],
       cout = resetColor @ resetColor @ coloredMessage WARN (format_entry (example_env 7) example_entry)\<rparr>"
  by (simp add: init_fresh example_calls_def example_closing_def example_log_def
      example_entry_def run_simps)

text \<open>
  After \<open>init\<close> with threshold \<open>thr\<close>, let the callers issue \<open>log\<close> calls at or above the
  threshold while the background thread takes its steps, and let the parts of \<open>shutdown\<close>
  follow, in any interleaving. At the end, and so at every moment, the records whose
  lines have been written, followed by the records still on their way, are the records
  of the calls in the order of the calls: no record is written twice or out of order.
  The console holds the lines of the records written, and so does the file when it could
  be opened.
\<close>

lemma written_then_pending_are_logged:
  assumes "list_all (accepted_call thr) calls"
    and "list_all closing_action closing"
    and "run (calls @ closing) (snd (init thr filename can_open (Logger_ctor out))) = Some s"
  shows "\<exists>hist. map snd hist @ pending s = logged calls
     \<and> written (tFileStream s) = (if can_open then file_text hist else [])
     \<and> cout s = out @ console_text hist"
proof -
  let ?s0 = "snd (init thr filename can_open (Logger_ctor out))"
  have ni: "list_all (\<lambda>a. \<not> is_init a) (calls @ closing)"
    using accepted_not_init [OF assms(1)] closing_not_init [OF assms(2)] by simp
  have sub: "submitted (eLogLevel ?s0) (bStopThread ?s0) (calls @ closing) = logged calls"
    using submitted_accepted [OF assms(1), of closing] submitted_closing [OF assms(2), of thr False]
    by (simp add: init_fresh)
  have p0: "pending ?s0 = []"
    by (simp add: init_fresh pending_def)
  from run_effect [OF ni assms(3)] obtain hist where
    "map snd hist @ pending s = pending ?s0 @ submitted (eLogLevel ?s0) (bStopThread ?s0) (calls @ closing)"
    and "written (tFileStream s) =
         written (tFileStream ?s0) @ (if is_open (tFileStream ?s0) then file_text hist else [])"
    and "cout s = cout ?s0 @ console_text hist"
    by blast
  then have "map snd hist @ pending s = logged calls
     \<and> written (tFileStream s) = (if can_open then file_text hist else [])
     \<and> cout s = out @ console_text hist"
    by (simp add: sub p0) (simp add: init_fresh)
  then show ?thesis by blast
qed

text \<open>
  C2. While the flag is clear, \<open>log\<close> of a record below the threshold returns and leaves
  the logger as it was: nothing is put into the queue and nothing is thrown. \<open>log\<close> of a
  record at or above the threshold, once it has the mutex, returns with the record added
  at the back of the queue. And after \<open>init\<close> with threshold \<open>thr\<close>, whatever the callers
  and the background thread do, every line in the file and on the console is the line of
  a record at or above \<open>thr\<close>.
\<close>

theorem log_filters_below_threshold:
  "(\<not> bStopThread s \<longrightarrow> level_value level < level_value (eLogLevel s) \<longrightarrow>
      log level message path func ln s = (Returned, s))
   \<and> (\<not> bStopThread s \<longrightarrow> level_value (eLogLevel s) \<le> level_value level \<longrightarrow> tMutex s = None \<longrightarrow>
      log level message path func ln s =
        (Returned, s\<lparr>LogQueue := LogQueue s @ [(level, message, path, func, ln)]\<rparr>))
   \<and> (list_all (\<lambda>a. \<not> is_init a) as \<longrightarrow>
      run as (snd (init thr filename can_open (Logger_ctor out))) = Some s' \<longrightarrow>
      (\<exists>hist. list_all (\<lambda>entry. level_value thr \<le> level_value (fst entry)) (map snd hist)
         \<and> written (tFileStream s') = (if can_open then file_text hist else [])
         \<and> cout s' = out @ console_text hist))"
proof (intro conjI impI)
  assume "\<not> bStopThread s" and "level_value level < level_value (eLogLevel s)"
  then show "log level message path func ln s = (Returned, s)"
    by (simp add: log_def)
next
  assume "\<not> bStopThread s" and "level_value (eLogLevel s) \<le> level_value level"
    and "tMutex s = None"
  then show "log level message path func ln s =
      (Returned, s\<lparr>LogQueue := LogQueue s @ [(level, message, path, func, ln)]\<rparr>)"
    by (simp add: log_def)
next
  let ?s0 = "snd (init thr filename can_open (Logger_ctor out))"
  assume ni: "list_all (\<lambda>a. \<not> is_init a) as" and r: "run as ?s0 = Some s'"
  from run_effect [OF ni r] obtain hist where
    a: "map snd hist @ pending s' = pending ?s0 @ submitted (eLogLevel ?s0) (bStopThread ?s0) as"
    and b: "written (tFileStream s') =
         written (tFileStream ?s0) @ (if is_open (tFileStream ?s0) then file_text hist else [])"
    and c: "cout s' = cout ?s0 @ console_text hist"
    by blast
  from a have "map snd hist @ pending s' = submitted thr False as"
    by (simp add: init_fresh pending_def)
  then have "list_all (\<lambda>entry. level_value thr \<le> level_value (fst entry)) (map snd hist @ pending s')"
    using submitted_levels [of thr False as] by simp
  then have "list_all (\<lambda>entry. level_value thr \<le> level_value (fst entry)) (map snd hist)"
    by simp
  moreover from b have "written (tFileStream s') = (if can_open then file_text hist else [])"
    by (simp add: init_fresh)
  moreover from c have "cout s' = out @ console_text hist"
    by (simp add: init_fresh)
  ultimately show "\<exists>hist. list_all (\<lambda>entry. level_value thr \<le> level_value (fst entry)) (map snd hist)
         \<and> written (tFileStream s') = (if can_open then file_text hist else [])
         \<and> cout s' = out @ console_text hist"
    by blast
qed

theorem log_filters_below_threshold_witness:
  "\<not> bStopThread (snd (init WARN ''app.log'' True (Logger_ctor [])))
   \<and> level_value INFO < level_value (eLogLevel (snd (init WARN ''app.log'' True (Logger_ctor []))))
   \<and> log INFO ''started'' ''main.cpp'' ''main'' 3 (snd (init WARN ''app.log'' True (Logger_ctor []))) =
       (Returned, snd (init WARN ''app.log'' True (Logger_ctor [])))
   \<and> level_value (eLogLevel (snd (init WARN ''app.log'' True (Logger_ctor [])))) \<le> level_value EROR
   \<and> tMutex (snd (init WARN ''app.log'' True (Logger_ctor []))) = None
   \<and> log EROR ''failed'' ''main.cpp'' ''main'' 9 (snd (init WARN ''app.log'' True (Logger_ctor []))) =
       (Returned, (snd (init WARN ''app.log'' True (Logger_ctor [])))
          \<lparr>LogQueue := [(EROR, ''failed'', ''main.cpp'', ''main'', 9)]\<rparr>)
   \<and> list_all (\<lambda>a. \<not> is_init a) (example_calls @ example_closing)
   \<and> (\<exists>s'. run (example_calls @ example_closing)
          (snd (init WARN ''app.log'' True (Logger_ctor []))) = Some s'
        \<and> (\<exists>hist. list_all (\<lambda>entry. level_value WARN \<le> level_value (fst entry)) (map snd hist)
             \<and> written (tFileStream s') = (if True then file_text hist else [])
             \<and> cout s' = [] @ console_text hist))"
proof -
  let ?s = "snd (init WARN ''app.log'' True (Logger_ctor []))"
  let ?f = "\<lparr>bStopThread = True, tMutex = None, eLogLevel = WARN, tAsyncThread = None,
       tFileStream = \<lparr>is_open = True, written = format_entry (example_env 7) example_entry\<rparr>,
       eConsoleColorThreshold = WARN, LogQueue = [],
       cout = resetColor @ resetColor @ coloredMessage WARN (format_entry (example_env 7) example_entry)\<rparr>"
  have a: "\<not> bStopThread ?s" and b: "level_value INFO < level_value (eLogLevel ?s)"
    and c: "level_value (eLogLevel ?s) \<le> level_value EROR" and d: "tMutex ?s = None"
    and q: "LogQueue ?s = []"
    by (simp_all add: init_fresh)
  have e: "list_all (\<lambda>a. \<not> is_init a) (example_calls @ example_closing)"
    by (simp add: example_calls_def example_closing_def example_log_def)
  have r: "run (example_calls @ example_closing) ?s = Some ?f"
    using example_run [of True] by simp
  from log_filters_below_threshold [where s = ?s and level = INFO and message = "''started''"
      and path = "''main.cpp''" and func = "''main''" and ln = 3] a b
  have 1: "log INFO ''started'' ''main.cpp'' ''main'' 3 ?s = (Returned, ?s)"
    by blast
  from log_filters_below_threshold [where s = ?s and level = EROR and message = "''failed''"
      and path = "''main.cpp''" and func = "''main''" and ln = 9] a c d q
  have 2: "log EROR ''failed'' ''main.cpp'' ''main'' 9 ?s =
      (Returned, ?s\<lparr>LogQueue := [(EROR, ''failed'', ''main.cpp'', ''main'', 9)]\<rparr>)"
    by simp
  from log_filters_below_threshold [where as = "example_calls @ example_closing" and thr = WARN
      and filename = "''app.log''" and can_open = True and out = "[]" and s' = ?f] e r
  have 3: "\<exists>hist. list_all (\<lambda>entry. level_value WARN \<le> level_value (fst entry)) (map snd hist)
      \<and> written (tFileStream ?f) = (if True then file_text hist else [])
      \<and> cout ?f = [] @ console_text hist"
    by blast
  have "\<exists>s'. run (example_calls @ example_closing) ?s = Some s'
        \<and> (\<exists>hist. list_all (\<lambda>entry. level_value WARN \<le> level_value (fst entry)) (map snd hist)
             \<and> written (tFileStream s') = (if True then file_text hist else [])
             \<and> cout s' = [] @ console_text hist)"
    using r 3 by blast
  with a b c d e 1 2 show ?thesis
    by blast
qed


subsection \<open>The records at \<open>shutdown\<close>\<close>

lemma run_append:
  "run (as @ bs) s = (case run as s of None \<Rightarrow> None | Some s1 \<Rightarrow> run bs s1)"
proof (induction as arbitrary: s)
  case Nil
  show ?case by simp
next
  case (Cons a as)
  obtain r s1 where ex: "exec a s = (r, s1)"
    by (cases "exec a s") auto
  with Cons show ?case
    by (cases r) simp_all
qed

lemma thread_step_drained:
  assumes "drained_or_inside s" and "tAsyncThread s = Some pc" and "thread_step e pc s = Some s'"
  shows "drained_or_inside s'"
proof (cases pc)
  case (Write entry)
  with assms show ?thesis
    by (auto simp: drained_or_inside_def pending_def write_entry_def Let_def)
next
  case InnerHead
  with assms show ?thesis
    by (auto simp: drained_or_inside_def pending_def split: list.splits)
qed (use assms in \<open>auto simp: drained_or_inside_def pending_def split: if_splits\<close>)

lemma exec_drained:
  assumes "\<not> is_init a" and "drained_or_inside s" and "exec a s = (r, s')"
    and "r = Returned \<or> (\<exists>x. r = Thrown x)"
  shows "drained_or_inside s'"
proof (cases a)
  case (CallInit lvl filename can_open)
  with assms(1) show ?thesis by simp
next
  case (CallLog lvl msg path func ln)
  from assms(2) have "bStopThread s"
    by (simp add: drained_or_inside_def)
  with CallLog assms(3) have "s' = s"
    by (simp add: log_def)
  with assms(2) show ?thesis
    by simp
next
  case ShutdownStop
  from assms(2) have "bStopThread s"
    by (simp add: drained_or_inside_def)
  with ShutdownStop assms(3,4) have "s' = s"
    by (auto simp: shutdown_stop_def split: if_splits)
  with assms(2) show ?thesis
    by simp
next
  case ShutdownJoin
  show ?thesis
  proof (cases "tAsyncThread s")
    case None
    with ShutdownJoin assms(3) have "s' = s"
      by (simp add: shutdown_join_def)
    with assms(2) show ?thesis
      by simp
  next
    case (Some pc)
    with ShutdownJoin assms(3,4) have fin: "pc = Finished" and s': "s' = s\<lparr>tAsyncThread := None\<rparr>"
      by (auto simp: shutdown_join_def split: if_splits)
    from assms(2) Some fin have "bStopThread s" and "LogQueue s = []"
      by (simp_all add: drained_or_inside_def pending_def)
    then show ?thesis
      by (simp add: s' drained_or_inside_def pending_def)
  qed
next
  case (Consume e)
  with assms(3,4) obtain pc where pc: "tAsyncThread s = Some pc" and st: "thread_step e pc s = Some s'"
    by (auto simp: processLogQueue_step_def split: option.splits)
  from thread_step_drained [OF assms(2) pc st] show ?thesis .
qed

lemma run_drained:
  assumes "list_all (\<lambda>a. \<not> is_init a) as" and "run as s = Some s'" and "drained_or_inside s"
  shows "drained_or_inside s'"
  using assms
proof (induction as arbitrary: s)
  case Nil
  then show ?case by simp
next
  case (Cons a as)
  from Cons.prems(2) obtain r s1 where ex: "exec a s = (r, s1)"
    and ok: "r = Returned \<or> (\<exists>x. r = Thrown x)" and rest: "run as s1 = Some s'"
    by (rule run_Cons_Some)
  from Cons.prems(1) have ni: "\<not> is_init a" and nis: "list_all (\<lambda>a. \<not> is_init a) as"
    by simp_all
  from exec_drained [OF ni Cons.prems(3) ex ok] have "drained_or_inside s1" .
  from Cons.IH [OF nis rest this] show ?case .
qed

text \<open>
  What the inner loop and the predicate of the wait are written for: when \<open>shutdown\<close> sets
  the flag while the background thread is anywhere inside its outer loop, then in every
  continuation in which \<open>join\<close> has returned nothing is left on its way, and the sinks
  hold the lines of all the records of the calls, each once and in the order of the
  calls.
\<close>

lemma stop_inside_loop_drains:
  assumes "list_all (accepted_call thr) calls"
    and "run calls (snd (init thr filename can_open (Logger_ctor out))) = Some s1"
    and "tAsyncThread s1 = Some pc" and "pc \<noteq> LoopHead" and "pc \<noteq> Finished"
    and "list_all closing_action closing"
    and "run (ShutdownStop # closing) s1 = Some s"
    and "tAsyncThread s = None"
  shows "\<exists>hist. map snd hist = logged calls
     \<and> written (tFileStream s) = (if can_open then file_text hist else [])
     \<and> cout s = out @ console_text hist"
proof -
  from assms(7) obtain r sb where ex: "exec ShutdownStop s1 = (r, sb)"
    and ok: "r = Returned \<or> (\<exists>x. r = Thrown x)" and rest: "run closing sb = Some s"
    by (rule run_Cons_Some)
  from ex ok assms(3,4,5) have "drained_or_inside sb"
    by (auto simp: shutdown_stop_def drained_or_inside_def split: if_splits)
  from run_drained [OF closing_not_init [OF assms(6)] rest this] assms(8)
  have p: "pending s = []"
    by (simp add: drained_or_inside_def)
  have cl: "list_all closing_action (ShutdownStop # closing)"
    using assms(6) by simp
  have "run (calls @ ShutdownStop # closing) (snd (init thr filename can_open (Logger_ctor out))) = Some s"
    using assms(2,7) by (simp add: run_append)
  from written_then_pending_are_logged [OF assms(1) cl this] p show ?thesis
    by simp
qed

lemma late_stop_run:
  "run late_stop_schedule (Logger_ctor []) =
     Some \<lparr>bStopThread = True, tMutex = None, eLogLevel = WARN, tAsyncThread = None,
       tFileStream = \<lparr>is_open = True,
         written = format_entry (example_env 7) example_entry
           @ format_entry (example_env 8) (EROR, ''disk full'', ''/a/b/c.cpp'', ''poll'', 57)\<rparr>,
       eConsoleColorThreshold = WARN, LogQueue = [],
       cout = resetColor @ resetColor
           @ coloredMessage WARN (format_entry (example_env 7) example_entry)
           @ resetColor @ resetColor
           @ coloredMessage EROR
               (format_entry (example_env 8) (EROR, ''disk full'', ''/a/b/c.cpp'', ''poll'', 57))\<rparr>"
  by (simp add: late_stop_schedule_def two_records_schedule_def init_fresh example_log_def
      example_entry_def run_simps)

text \<open>
  C1. Every record submitted at or above the threshold after \<open>init\<close> and before
  \<open>shutdown\<close> is to be in the file, once and in the order of submission, when \<open>shutdown\<close>
  returns. The code does not ensure it. After \<open>init\<close> with the file opened, two records
  at or above the threshold are submitted and \<open>shutdown\<close> sets the flag while the
  background thread stands before the test of its outer loop. The thread tests the flag
  and returns without looking at the queue; \<open>join\<close> and with it \<open>shutdown\<close> return; both
  records are still in the queue, and the file and the console have received nothing.
\<close>

theorem shutdown_at_loop_head_loses_records:
  "logged lost_records_schedule =
     [(WARN, ''disk low'', ''/a/b/c.cpp'', ''poll'', 42),
      (EROR, ''disk full'', ''/a/b/c.cpp'', ''poll'', 57)]
   \<and> run lost_records_schedule (Logger_ctor []) =
     Some \<lparr>bStopThread = True, tMutex = None, eLogLevel = WARN, tAsyncThread = None,
       tFileStream = \<lparr>is_open = True, written = []\<rparr>,
       eConsoleColorThreshold = WARN,
       LogQueue = [(WARN, ''disk low'', ''/a/b/c.cpp'', ''poll'', 42),
                   (EROR, ''disk full'', ''/a/b/c.cpp'', ''poll'', 57)],
       cout = []\<rparr>"
  by (simp add: lost_records_schedule_def init_fresh example_log_def run_simps)


subsection \<open>The mutex along an execution\<close>

lemma consistent_ctor: "consistent (Logger_ctor out)"
  by (simp add: consistent_def Logger_ctor_def)

lemma thread_step_consistent:
  assumes "consistent s" and "tAsyncThread s = Some pc" and "thread_step e pc s = Some s'"
  shows "consistent s'"
proof (cases pc)
  case (Write entry)
  with assms show ?thesis
    by (auto simp: consistent_def write_entry_def Let_def)
next
  case InnerHead
  with assms show ?thesis
    by (auto simp: consistent_def split: list.splits)
qed (use assms in \<open>auto simp: consistent_def split: if_splits\<close>)

lemma exec_consistent:
  assumes "consistent s" and "exec a s = (r, s')" and "r = Returned \<or> (\<exists>x. r = Thrown x)"
  shows "consistent s'"
proof (cases a)
  case (CallInit lvl filename can_open)
  with assms show ?thesis
    by (auto simp: init_def setLogLevel_def setLogFile_def consistent_def Let_def
        split: if_splits option.splits)
next
  case (CallLog lvl msg path func ln)
  with assms show ?thesis
    by (auto simp: log_def consistent_def split: if_splits option.splits)
next
  case ShutdownStop
  with assms show ?thesis
    by (auto simp: shutdown_stop_def consistent_def split: if_splits option.splits)
next
  case ShutdownJoin
  with assms show ?thesis
    by (auto simp: shutdown_join_def consistent_def split: if_splits option.splits)
next
  case (Consume e)
  with assms(2,3) obtain pc where pc: "tAsyncThread s = Some pc" and st: "thread_step e pc s = Some s'"
    by (auto simp: processLogQueue_step_def split: option.splits)
  from thread_step_consistent [OF assms(1) pc st] show ?thesis .
qed

lemma run_consistent:
  assumes "run as s = Some s'" and "consistent s"
  shows "consistent s'"
  using assms
proof (induction as arbitrary: s)
  case Nil
  then show ?case by simp
next
  case (Cons a as)
  from Cons.prems(1) obtain r s1 where ex: "exec a s = (r, s1)"
    and ok: "r = Returned \<or> (\<exists>x. r = Thrown x)" and rest: "run as s1 = Some s'"
    by (rule run_Cons_Some)
  from exec_consistent [OF Cons.prems(2) ex ok] have "consistent s1" .
  from Cons.IH [OF rest this] show ?case .
qed

lemma run_keeps_stopped:
  assumes "list_all (\<lambda>a. \<not> is_init a) as" and "run as s = Some s'" and "bStopThread s"
  shows "bStopThread s'"
  using assms
proof (induction as arbitrary: s)
  case Nil
  then show ?case by simp
next
  case (Cons a as)
  from Cons.prems(2) obtain r s1 where ex: "exec a s = (r, s1)"
    and ok: "r = Returned \<or> (\<exists>x. r = Thrown x)" and rest: "run as s1 = Some s'"
    by (rule run_Cons_Some)
  from Cons.prems(1) have ni: "\<not> is_init a" and nis: "list_all (\<lambda>a. \<not> is_init a) as"
    by simp_all
  from exec_effect [OF ni ex ok] Cons.prems(3) have "bStopThread s1" by blast
  from Cons.IH [OF nis rest this] show ?case .
qed

text \<open>
  C3. A \<open>log\<close> call on a logger on which \<open>init\<close> has not run, or on which \<open>shutdown\<close> has
  set its flag and \<open>init\<close> has not run since, throws the \<open>LogException\<close>
  "Logger has not been initialized" to its caller, whatever the record and its level, and
  whatever the other calls and the background thread have done in between.
\<close>

theorem log_outside_running_throws:
  "(list_all (\<lambda>a. \<not> is_init a) as \<longrightarrow> run as (Logger_ctor out) = Some s \<longrightarrow>
      log level message path func ln s =
        (Thrown (LogException ''Logger has not been initialized''), s))
   \<and> (shutdown_stop sa = (Returned, sb) \<longrightarrow> list_all (\<lambda>a. \<not> is_init a) bs \<longrightarrow>
      run bs sb = Some s' \<longrightarrow>
      log level message path func ln s' =
        (Thrown (LogException ''Logger has not been initialized''), s'))"
proof (intro conjI impI)
  assume "list_all (\<lambda>a. \<not> is_init a) as" and "run as (Logger_ctor out) = Some s"
  moreover have "bStopThread (Logger_ctor out)"
    by (simp add: Logger_ctor_def)
  ultimately have "bStopThread s"
    by (rule run_keeps_stopped)
  then show "log level message path func ln s =
      (Thrown (LogException ''Logger has not been initialized''), s)"
    by (simp add: log_def)
next
  assume st: "shutdown_stop sa = (Returned, sb)"
    and "list_all (\<lambda>a. \<not> is_init a) bs" and "run bs sb = Some s'"
  moreover from st have "bStopThread sb"
    by (auto simp: shutdown_stop_def split: if_splits)
  ultimately have "bStopThread s'"
    using run_keeps_stopped by blast
  then show "log level message path func ln s' =
      (Thrown (LogException ''Logger has not been initialized''), s')"
    by (simp add: log_def)
qed


theorem log_outside_running_throws_witness:
  "list_all (\<lambda>a. \<not> is_init a) [ShutdownStop]
   \<and> run [ShutdownStop] (Logger_ctor []) = Some (Logger_ctor [])
   \<and> log EROR ''failed'' ''main.cpp'' ''main'' 9 (Logger_ctor []) =
       (Thrown (LogException ''Logger has not been initialized''), Logger_ctor [])
   \<and> shutdown_stop (snd (init WARN ''app.log'' True (Logger_ctor []))) =
       (Returned, (snd (init WARN ''app.log'' True (Logger_ctor [])))\<lparr>bStopThread := True\<rparr>)
   \<and> list_all (\<lambda>a. \<not> is_init a) [Consume (example_env 7), ShutdownJoin]
   \<and> run [Consume (example_env 7), ShutdownJoin]
        ((snd (init WARN ''app.log'' True (Logger_ctor [])))\<lparr>bStopThread := True\<rparr>) =
       Some ((snd (init WARN ''app.log'' True (Logger_ctor [])))
          \<lparr>bStopThread := True, tAsyncThread := None\<rparr>)
   \<and> log DBUG ''late'' ''main.cpp'' ''main'' 12
        ((snd (init WARN ''app.log'' True (Logger_ctor [])))
          \<lparr>bStopThread := True, tAsyncThread := None\<rparr>) =
       (Thrown (LogException ''Logger has not been initialized''),
        (snd (init WARN ''app.log'' True (Logger_ctor [])))
          \<lparr>bStopThread := True, tAsyncThread := None\<rparr>)"
proof -
  let ?s0 = "snd (init WARN ''app.log'' True (Logger_ctor []))"
  have a: "list_all (\<lambda>a. \<not> is_init a) [ShutdownStop]"
    by simp
  have b: "run [ShutdownStop] (Logger_ctor []) = Some (Logger_ctor [])"
    by (simp add: shutdown_stop_def Logger_ctor_def)
  have c: "shutdown_stop ?s0 = (Returned, ?s0\<lparr>bStopThread := True\<rparr>)"
    by (simp add: init_fresh shutdown_stop_def)
  have d: "list_all (\<lambda>a. \<not> is_init a) [Consume (example_env 7), ShutdownJoin]"
    by simp
  have e: "run [Consume (example_env 7), ShutdownJoin] (?s0\<lparr>bStopThread := True\<rparr>) =
      Some (?s0\<lparr>bStopThread := True, tAsyncThread := None\<rparr>)"
    by (simp add: init_fresh run_simps)
  from log_outside_running_throws [where as = "[ShutdownStop]" and out = "[]"
      and s = "Logger_ctor []" and level = EROR and message = "''failed''"
      and path = "''main.cpp''" and func = "''main''" and ln = 9] a b
  have 1: "log EROR ''failed'' ''main.cpp'' ''main'' 9 (Logger_ctor []) =
      (Thrown (LogException ''Logger has not been initialized''), Logger_ctor [])"
    by blast
  from log_outside_running_throws [where sa = ?s0 and sb = "?s0\<lparr>bStopThread := True\<rparr>"
      and bs = "[Consume (example_env 7), ShutdownJoin]"
      and s' = "?s0\<lparr>bStopThread := True, tAsyncThread := None\<rparr>"
      and level = DBUG and message = "''late''"
      and path = "''main.cpp''" and func = "''main''" and ln = 12] c d e
  have 2: "log DBUG ''late'' ''main.cpp'' ''main'' 12 (?s0\<lparr>bStopThread := True, tAsyncThread := None\<rparr>) =
      (Thrown (LogException ''Logger has not been initialized''),
       ?s0\<lparr>bStopThread := True, tAsyncThread := None\<rparr>)"
    by blast
  from a b c d e 1 2 show ?thesis
    by blast
qed

text \<open>
  C10. When \<open>log\<close> throws, the logger it leaves is the logger it found, field by field;
  what it throws is the \<open>LogException\<close> of a logger whose flag is set.
\<close>

theorem log_throw_leaves_state:
  assumes "log level message path func ln s = (Thrown x, s')"
  shows "s' = s \<and> x = LogException ''Logger has not been initialized'' \<and> bStopThread s"
  using assms by (auto simp: log_def split: if_splits)

theorem log_throw_leaves_state_witness:
  "log EROR ''failed'' ''main.cpp'' ''main'' 9 (Logger_ctor []) =
     (Thrown (LogException ''Logger has not been initialized''), Logger_ctor [])
   \<and> bStopThread (Logger_ctor [])"
proof -
  have a: "log EROR ''failed'' ''main.cpp'' ''main'' 9 (Logger_ctor []) =
     (Thrown (LogException ''Logger has not been initialized''), Logger_ctor [])"
    by (simp add: log_def Logger_ctor_def)
  from log_throw_leaves_state [OF a] a show ?thesis
    by simp
qed

subsection \<open>\<open>shutdown\<close> a second time\<close>

text \<open>
  C4, as the code has it. In every execution, once \<open>join\<close> has returned in \<open>shutdown\<close>, a
  further \<open>shutdown\<close> sets the flag, which is set already, and its \<open>join\<close> on the thread
  that is no longer joinable throws \<open>std::system_error\<close> with \<open>invalid_argument\<close>; the
  logger is left as it was. No \<open>LogException\<close> is thrown.
\<close>

theorem second_shutdown_throws_system_error:
  assumes "run as (Logger_ctor out) = Some s0" and "shutdown_join s0 = (Returned, s)"
  shows "shutdown s = (Thrown (system_error invalid_argument), s)"
proof -
  from run_consistent [OF assms(1) consistent_ctor] have c: "consistent s0" .
  from assms(2) have fin: "tAsyncThread s0 = Some Finished" and s: "s = s0\<lparr>tAsyncThread := None\<rparr>"
    by (auto simp: shutdown_join_def split: option.splits if_splits)
  from c fin have m: "tMutex s0 = None" and b: "bStopThread s0"
    by (simp_all add: consistent_def)
  from b have "s\<lparr>bStopThread := True\<rparr> = s"
    by (simp add: s)
  with m show ?thesis
    by (simp add: shutdown_def shutdown_stop_def shutdown_join_def s)
qed

theorem second_shutdown_throws_system_error_witness:
  "run (CallInit WARN ''app.log'' True # example_calls @ [ShutdownStop, Consume (example_env 7),
        Consume (example_env 7), Consume (example_env 7)]) (Logger_ctor []) =
     Some \<lparr>bStopThread = True, tMutex = None, eLogLevel = WARN, tAsyncThread = Some Finished,
       tFileStream = \<lparr>is_open = True, written = format_entry (example_env 7) example_entry\<rparr>,
       eConsoleColorThreshold = WARN, LogQueue = [],
       cout = resetColor @ resetColor @ coloredMessage WARN (format_entry (example_env 7) example_entry)\<rparr>
   \<and> shutdown_join \<lparr>bStopThread = True, tMutex = None, eLogLevel = WARN, tAsyncThread = Some Finished,
       tFileStream = \<lparr>is_open = True, written = format_entry (example_env 7) example_entry\<rparr>,
       eConsoleColorThreshold = WARN, LogQueue = [],
       cout = resetColor @ resetColor @ coloredMessage WARN (format_entry (example_env 7) example_entry)\<rparr> =
     (Returned, \<lparr>bStopThread = True, tMutex = None, eLogLevel = WARN, tAsyncThread = None,
       tFileStream = \<lparr>is_open = True, written = format_entry (example_env 7) example_entry\<rparr>,
       eConsoleColorThreshold = WARN, LogQueue = [],
       cout = resetColor @ resetColor @ coloredMessage WARN (format_entry (example_env 7) example_entry)\<rparr>)
   \<and> shutdown \<lparr>bStopThread = True, tMutex = None, eLogLevel = WARN, tAsyncThread = None,
       tFileStream = \<lparr>is_open = True, written = format_entry (example_env 7) example_entry\<rparr>,
       eConsoleColorThreshold = WARN, LogQueue = [],
       cout = resetColor @ resetColor @ coloredMessage WARN (format_entry (example_env 7) example_entry)\<rparr> =
     (Thrown (system_error invalid_argument),
      \<lparr>bStopThread = True, tMutex = None, eLogLevel = WARN, tAsyncThread = None,
       tFileStream = \<lparr>is_open = True, written = format_entry (example_env 7) example_entry\<rparr>,
       eConsoleColorThreshold = WARN, LogQueue = [],
       cout = resetColor @ resetColor @ coloredMessage WARN (format_entry (example_env 7) example_entry)\<rparr>)"
proof -
  let ?c = "resetColor @ resetColor @ coloredMessage WARN (format_entry (example_env 7) example_entry)"
  let ?w = "format_entry (example_env 7) example_entry"
  let ?joined_before = "\<lparr>bStopThread = True, tMutex = None, eLogLevel = WARN, tAsyncThread = Some Finished,
       tFileStream = \<lparr>is_open = True, written = ?w\<rparr>,
       eConsoleColorThreshold = WARN, LogQueue = [], cout = ?c\<rparr>"
  let ?joined = "\<lparr>bStopThread = True, tMutex = None, eLogLevel = WARN, tAsyncThread = None,
       tFileStream = \<lparr>is_open = True, written = ?w\<rparr>,
       eConsoleColorThreshold = WARN, LogQueue = [], cout = ?c\<rparr>"
  have a: "run (CallInit WARN ''app.log'' True # example_calls @ [ShutdownStop, Consume (example_env 7),
        Consume (example_env 7), Consume (example_env 7)]) (Logger_ctor []) = Some ?joined_before"
    by (simp add: init_fresh example_calls_def example_log_def example_entry_def run_simps)
  have b: "shutdown_join ?joined_before = (Returned, ?joined)"
    by (simp add: shutdown_join_def)
  from second_shutdown_throws_system_error [OF a b] a b show ?thesis
    by simp
qed

text \<open>
  After the execution of the example, in which \<open>shutdown\<close> has returned, a second
  \<open>shutdown\<close> throws \<open>std::system_error\<close>, which is not the \<open>LogException\<close>.
\<close>

theorem second_shutdown_counterexample:
  "run (example_calls @ example_closing) (snd (init WARN ''app.log'' True (Logger_ctor []))) =
     Some \<lparr>bStopThread = True, tMutex = None, eLogLevel = WARN, tAsyncThread = None,
       tFileStream = \<lparr>is_open = True, written = format_entry (example_env 7) example_entry\<rparr>,
       eConsoleColorThreshold = WARN, LogQueue = [],
       cout = resetColor @ resetColor @ coloredMessage WARN (format_entry (example_env 7) example_entry)\<rparr>
   \<and> fst (shutdown \<lparr>bStopThread = True, tMutex = None, eLogLevel = WARN, tAsyncThread = None,
       tFileStream = \<lparr>is_open = True, written = format_entry (example_env 7) example_entry\<rparr>,
       eConsoleColorThreshold = WARN, LogQueue = [],
       cout = resetColor @ resetColor @ coloredMessage WARN (format_entry (example_env 7) example_entry)\<rparr>) =
     Thrown (system_error invalid_argument)
   \<and> Thrown (system_error invalid_argument) \<noteq>
       Thrown (LogException ''Logger has not been initialized'')"
  using example_run [of True]
  by (simp add: shutdown_def shutdown_stop_def shutdown_join_def)


subsection \<open>One record at a time\<close>

text \<open>
  C8, as the code has it. In every execution: holding the mutex at the head of its inner
  loop with a queue that is not empty, the background thread pops the one record at the
  front, leaves the others in the queue and releases the mutex before it formats or
  writes that record. While it formats and writes the record the mutex is free, a \<open>log\<close>
  call is not blocked, and the queue is not touched. It must take the mutex again before
  it looks at the queue for the next record.
\<close>

theorem one_record_per_lock_acquisition:
  assumes "run as (Logger_ctor out) = Some s"
  shows "(tAsyncThread s = Some InnerHead \<longrightarrow> LogQueue s = entry # rest \<longrightarrow>
      tMutex s = Some Consumer
      \<and> processLogQueue_step e s =
          Some (s\<lparr>LogQueue := rest, tMutex := None, tAsyncThread := Some (Write entry)\<rparr>))
   \<and> (tAsyncThread s = Some (Write entry) \<longrightarrow>
      tMutex s = None
      \<and> fst (log level message path func ln s) \<noteq> Blocked
      \<and> processLogQueue_step e s = Some ((write_entry e entry s)\<lparr>tAsyncThread := Some Relock\<rparr>)
      \<and> tMutex (write_entry e entry s) = None
      \<and> LogQueue (write_entry e entry s) = LogQueue s)
   \<and> (tAsyncThread s = Some Relock \<longrightarrow>
      tMutex s = None
      \<and> processLogQueue_step e s =
          Some (s\<lparr>tMutex := Some Consumer, tAsyncThread := Some InnerHead\<rparr>))"
proof -
  from run_consistent [OF assms consistent_ctor] have c: "consistent s" .
  show ?thesis
  proof (intro conjI impI)
    assume "tAsyncThread s = Some InnerHead" and "LogQueue s = entry # rest"
    with c show "tMutex s = Some Consumer"
      and "processLogQueue_step e s =
          Some (s\<lparr>LogQueue := rest, tMutex := None, tAsyncThread := Some (Write entry)\<rparr>)"
      by (simp_all add: consistent_def processLogQueue_step_def)
  next
    assume w: "tAsyncThread s = Some (Write entry)"
    with c show m: "tMutex s = None"
      by (simp add: consistent_def)
    then show "fst (log level message path func ln s) \<noteq> Blocked"
      by (simp add: log_def)
    from w show "processLogQueue_step e s = Some ((write_entry e entry s)\<lparr>tAsyncThread := Some Relock\<rparr>)"
      by (simp add: processLogQueue_step_def)
    from m show "tMutex (write_entry e entry s) = None"
      by (simp add: write_entry_def Let_def)
    show "LogQueue (write_entry e entry s) = LogQueue s"
      by (simp add: write_entry_def Let_def)
  next
    assume "tAsyncThread s = Some Relock"
    with c show "tMutex s = None"
      and "processLogQueue_step e s =
          Some (s\<lparr>tMutex := Some Consumer, tAsyncThread := Some InnerHead\<rparr>)"
      by (simp_all add: consistent_def processLogQueue_step_def)
  qed
qed


lemma two_records_run:
  "run two_records_schedule (Logger_ctor []) =
     Some (two_records_state InnerHead (Some Consumer)
       [example_entry, (EROR, ''disk full'', ''/a/b/c.cpp'', ''poll'', 57)] [] [])"
  by (simp add: two_records_schedule_def two_records_state_def init_fresh example_log_def
      example_entry_def run_simps)

lemma two_records_run_popped:
  "run (two_records_schedule @ [Consume (example_env 7)]) (Logger_ctor []) =
     Some (two_records_state (Write example_entry) None
       [(EROR, ''disk full'', ''/a/b/c.cpp'', ''poll'', 57)] [] [])"
  by (simp add: two_records_schedule_def two_records_state_def init_fresh example_log_def
      example_entry_def run_simps)

lemma two_records_run_written:
  "run (two_records_schedule @ [Consume (example_env 7), Consume (example_env 7)]) (Logger_ctor []) =
     Some (two_records_state Relock None
       [(EROR, ''disk full'', ''/a/b/c.cpp'', ''poll'', 57)]
       (format_entry (example_env 7) example_entry)
       (resetColor @ resetColor @ coloredMessage WARN (format_entry (example_env 7) example_entry)))"
  by (simp add: two_records_schedule_def two_records_state_def init_fresh example_log_def
      example_entry_def run_simps)

theorem one_record_per_lock_acquisition_witness:
  "run two_records_schedule (Logger_ctor []) =
     Some (two_records_state InnerHead (Some Consumer)
       [example_entry, (EROR, ''disk full'', ''/a/b/c.cpp'', ''poll'', 57)] [] [])
   \<and> processLogQueue_step (example_env 7)
       (two_records_state InnerHead (Some Consumer)
         [example_entry, (EROR, ''disk full'', ''/a/b/c.cpp'', ''poll'', 57)] [] []) =
     Some (two_records_state (Write example_entry) None
       [(EROR, ''disk full'', ''/a/b/c.cpp'', ''poll'', 57)] [] [])
   \<and> run (two_records_schedule @ [Consume (example_env 7)]) (Logger_ctor []) =
     Some (two_records_state (Write example_entry) None
       [(EROR, ''disk full'', ''/a/b/c.cpp'', ''poll'', 57)] [] [])
   \<and> fst (log EROR ''failed'' ''main.cpp'' ''main'' 9
       (two_records_state (Write example_entry) None
         [(EROR, ''disk full'', ''/a/b/c.cpp'', ''poll'', 57)] [] [])) \<noteq> Blocked
   \<and> run (two_records_schedule @ [Consume (example_env 7), Consume (example_env 7)]) (Logger_ctor []) =
     Some (two_records_state Relock None
       [(EROR, ''disk full'', ''/a/b/c.cpp'', ''poll'', 57)]
       (format_entry (example_env 7) example_entry)
       (resetColor @ resetColor @ coloredMessage WARN (format_entry (example_env 7) example_entry)))
   \<and> processLogQueue_step (example_env 7)
       (two_records_state Relock None
         [(EROR, ''disk full'', ''/a/b/c.cpp'', ''poll'', 57)]
         (format_entry (example_env 7) example_entry)
         (resetColor @ resetColor @ coloredMessage WARN (format_entry (example_env 7) example_entry))) =
     Some (two_records_state InnerHead (Some Consumer)
       [(EROR, ''disk full'', ''/a/b/c.cpp'', ''poll'', 57)]
       (format_entry (example_env 7) example_entry)
       (resetColor @ resetColor @ coloredMessage WARN (format_entry (example_env 7) example_entry)))"
proof -
  let ?second = "(EROR, ''disk full'', ''/a/b/c.cpp'', ''poll'', 57)"
  let ?line = "format_entry (example_env 7) example_entry"
  let ?shown = "resetColor @ resetColor @ coloredMessage WARN ?line"
  let ?head = "two_records_state InnerHead (Some Consumer) [example_entry, ?second] [] []"
  let ?popped = "two_records_state (Write example_entry) None [?second] [] []"
  let ?done = "two_records_state Relock None [?second] ?line ?shown"
  have 1: "processLogQueue_step (example_env 7) ?head = Some ?popped"
    using one_record_per_lock_acquisition [OF two_records_run,
        where entry = example_entry and rest = "[?second]" and e = "example_env 7"]
    by (simp add: two_records_state_def)
  have 2: "fst (log EROR ''failed'' ''main.cpp'' ''main'' 9 ?popped) \<noteq> Blocked"
    using one_record_per_lock_acquisition [OF two_records_run_popped,
        where entry = example_entry and level = EROR and message = "''failed''"
          and path = "''main.cpp''" and func = "''main''" and ln = 9]
    by (simp add: two_records_state_def)
  have 3: "processLogQueue_step (example_env 7) ?done =
      Some (two_records_state InnerHead (Some Consumer) [?second] ?line ?shown)"
    using one_record_per_lock_acquisition [OF two_records_run_written,
        where e = "example_env 7"]
    by (simp add: two_records_state_def)
  from 1 2 3 two_records_run two_records_run_popped two_records_run_written
  show ?thesis by blast
qed

text \<open>
  When the background thread has released the mutex after taking it once, the second of
  two queued records is still in the queue: the records are not removed as one batch.
\<close>

theorem batch_removal_counterexample:
  "run (two_records_schedule @ [Consume (example_env 7)]) (Logger_ctor []) =
     Some \<lparr>bStopThread = False, tMutex = None, eLogLevel = WARN,
       tAsyncThread = Some (Write (WARN, ''disk low'', ''/a/b/c.cpp'', ''poll'', 42)),
       tFileStream = \<lparr>is_open = True, written = []\<rparr>,
       eConsoleColorThreshold = WARN,
       LogQueue = [(EROR, ''disk full'', ''/a/b/c.cpp'', ''poll'', 57)], cout = []\<rparr>"
  using two_records_run_popped by (simp add: two_records_state_def example_entry_def)

subsection \<open>The console copy\<close>

lemma color_codes:
  "ConsoleColorSetter GREEN = escape # ''[32m''"
  "ConsoleColorSetter DEFAULT = escape # ''[0m''"
  "ConsoleColorSetter YELLOW = escape # ''[33m''"
  "ConsoleColorSetter RED = escape # ''[31m''"
  by (simp_all add: ConsoleColorSetter_def show_int_def show_nat.simps digit_char_def)

text \<open>
  C7. When the background thread writes a record, what it prints to the console ends
  with the colour code of the level (green for \<open>DBUG\<close>, the default for \<open>INFO\<close>, yellow for
  \<open>WARN\<close>, red for \<open>EROR\<close>), then the formatted line, then the reset code \<open>ESC[0m\<close>. Before
  them come the two reset codes printed by the destructors of the temporary colour
  setters.
\<close>

theorem console_copy_colored_then_reset:
  assumes "tAsyncThread s = Some (Write (level, message, path, func, ln))"
    and "processLogQueue_step e s = Some s'"
  shows "cout s' = cout s @ (escape # ''[0m'') @ (escape # ''[0m'')
     @ (escape # (case level of DBUG \<Rightarrow> ''[32m'' | INFO \<Rightarrow> ''[0m'' | WARN \<Rightarrow> ''[33m'' | EROR \<Rightarrow> ''[31m''))
     @ formatLogMessage e level message path func ln
     @ (escape # ''[0m'')"
proof -
  from assms have "s' = (write_entry e (level, message, path, func, ln) s)\<lparr>tAsyncThread := Some Relock\<rparr>"
    by (simp add: processLogQueue_step_def)
  then show ?thesis
    by (cases level)
       (simp_all add: write_entry_def Let_def coloredMessage_def format_entry_def color_codes
         resetColor_def)
qed

theorem console_copy_colored_then_reset_witness:
  "tAsyncThread writing_state = Some (Write (WARN, ''disk low'', ''/a/b/c.cpp'', ''poll'', 42))
   \<and> processLogQueue_step (example_env 7) writing_state =
       Some ((write_entry (example_env 7) (WARN, ''disk low'', ''/a/b/c.cpp'', ''poll'', 42) writing_state)
         \<lparr>tAsyncThread := Some Relock\<rparr>)
   \<and> cout ((write_entry (example_env 7) (WARN, ''disk low'', ''/a/b/c.cpp'', ''poll'', 42) writing_state)
         \<lparr>tAsyncThread := Some Relock\<rparr>) =
       (escape # ''[0m'') @ (escape # ''[0m'') @ (escape # ''[33m'')
       @ formatLogMessage (example_env 7) WARN ''disk low'' ''/a/b/c.cpp'' ''poll'' 42
       @ (escape # ''[0m'')"
proof -
  have a: "tAsyncThread writing_state = Some (Write (WARN, ''disk low'', ''/a/b/c.cpp'', ''poll'', 42))"
    by (simp add: writing_state_def)
  have b: "processLogQueue_step (example_env 7) writing_state =
       Some ((write_entry (example_env 7) (WARN, ''disk low'', ''/a/b/c.cpp'', ''poll'', 42) writing_state)
         \<lparr>tAsyncThread := Some Relock\<rparr>)"
    by (simp add: processLogQueue_step_def writing_state_def)
  have c: "cout writing_state = []"
    by (simp add: writing_state_def)
  from console_copy_colored_then_reset [OF a b] a b c show ?thesis
    by simp
qed


subsection \<open>\<open>wait\<close> among the other threads\<close>

lemma thread_step_wait_rel:
  assumes "wait_rel pc s t" and "tAsyncThread s = Some cpc" and "thread_step e cpc s = Some s'"
  shows "\<exists>t'. thread_step e cpc t = Some t' \<and> tAsyncThread t = Some cpc \<and> wait_rel pc s' t'"
proof (cases "pc = WHold \<or> pc = WUnlock")
  case False
  with assms(1) have eq: "s = t" and c: "consistent t"
    by (simp_all add: wait_rel_def)
  from thread_step_consistent [OF c] assms(2,3) eq have "consistent s'"
    by simp
  with False assms(2,3) eq show ?thesis
    by (simp add: wait_rel_def)
next
  case True
  with assms(1) have c: "consistent t" and m: "tMutex t = None"
    and eq: "s = t\<lparr>tMutex := Some Caller\<rparr>"
    by (simp_all add: wait_rel_def)
  from eq assms(2) have pc_t: "tAsyncThread t = Some cpc"
    by simp
  show ?thesis
  proof (cases cpc)
    case LoopHead
    let ?t' = "t\<lparr>tAsyncThread := Some (if bStopThread t then Finished else LockMutex)\<rparr>"
    have st: "thread_step e cpc t = Some ?t'"
      using LoopHead by simp
    from thread_step_consistent [OF c pc_t st] have "consistent ?t'" .
    moreover have "s' = ?t'\<lparr>tMutex := Some Caller\<rparr>"
      using assms(3) LoopHead eq by auto
    ultimately have "wait_rel pc s' ?t'"
      using True m by (simp add: wait_rel_def)
    with st pc_t show ?thesis by blast
  next
    case (Write entry)
    let ?t' = "(write_entry e entry t)\<lparr>tAsyncThread := Some Relock\<rparr>"
    have st: "thread_step e cpc t = Some ?t'"
      using Write by simp
    from thread_step_consistent [OF c pc_t st] have "consistent ?t'" .
    moreover have "s' = ?t'\<lparr>tMutex := Some Caller\<rparr>"
      using assms(3) Write eq by (auto simp: write_entry_def Let_def)
    moreover have "tMutex ?t' = None"
      using m by (simp add: write_entry_def Let_def)
    ultimately have "wait_rel pc s' ?t'"
      using True by (simp add: wait_rel_def)
    with st pc_t show ?thesis by blast
  next
    case WaitCond
    with c pc_t m show ?thesis by (simp add: consistent_def)
  next
    case InnerHead
    with c pc_t m show ?thesis by (simp add: consistent_def)
  next
    case LockMutex
    with assms(3) eq show ?thesis by simp
  next
    case Asleep
    with assms(3) eq show ?thesis by simp
  next
    case Relock
    with assms(3) eq show ?thesis by simp
  next
    case Finished
    with assms(3) show ?thesis by simp
  qed
qed

lemma exec_wait_rel:
  assumes "wait_rel pc s t" and "exec a s = (r, s')" and "r = Returned \<or> (\<exists>x. r = Thrown x)"
  shows "\<exists>t'. exec a t = (r, t') \<and> wait_rel pc s' t'"
proof (cases "pc = WHold \<or> pc = WUnlock")
  case False
  with assms(1) have eq: "s = t" and c: "consistent t"
    by (simp_all add: wait_rel_def)
  from exec_consistent [OF c] assms(2,3) eq have "consistent s'"
    by blast
  with False assms(2) eq show ?thesis
    by (simp add: wait_rel_def)
next
  case True
  with assms(1) have c: "consistent t" and m: "tMutex t = None"
    and eq: "s = t\<lparr>tMutex := Some Caller\<rparr>"
    by (simp_all add: wait_rel_def)
  show ?thesis
  proof (cases a)
    case (CallInit lvl filename can_open)
    with assms(2,3) eq show ?thesis
      by (auto simp: init_def setLogLevel_def Let_def)
  next
    case (CallLog lvl msg path func ln)
    with assms(2,3) eq have "s' = s" and "exec a t = (r, t)"
      by (auto simp: log_def split: if_splits)
    with assms(1) show ?thesis by blast
  next
    case ShutdownStop
    with assms(2,3) eq show ?thesis
      by (auto simp: shutdown_stop_def)
  next
    case ShutdownJoin
    show ?thesis
    proof (cases "tAsyncThread t")
      case None
      with ShutdownJoin assms(2) eq have "s' = s" and "exec a t = (r, t)"
        by (auto simp: shutdown_join_def)
      with assms(1) show ?thesis by blast
    next
      case (Some cpc)
      with ShutdownJoin assms(2,3) eq have fin: "cpc = Finished"
        and r: "r = Returned" and s': "s' = s\<lparr>tAsyncThread := None\<rparr>"
        by (auto simp: shutdown_join_def split: if_splits)
      let ?t' = "t\<lparr>tAsyncThread := None\<rparr>"
      have ex: "exec a t = (r, ?t')"
        using ShutdownJoin Some fin r by (simp add: shutdown_join_def)
      from exec_consistent [OF c ex] r have "consistent ?t'"
        by simp
      moreover have "s' = ?t'\<lparr>tMutex := Some Caller\<rparr>"
        using s' eq by simp
      ultimately have "wait_rel pc s' ?t'"
        using True m by (simp add: wait_rel_def)
      with ex show ?thesis by blast
    qed
  next
    case (Consume e)
    with assms(2,3) obtain cpc where cpc: "tAsyncThread s = Some cpc"
      and st: "thread_step e cpc s = Some s'" and r: "r = Returned"
      by (auto simp: processLogQueue_step_def split: option.splits)
    from thread_step_wait_rel [OF assms(1) cpc st] obtain t' where
      "thread_step e cpc t = Some t'" and "tAsyncThread t = Some cpc" and "wait_rel pc s' t'"
      by blast
    with Consume r show ?thesis
      by (simp add: processLogQueue_step_def)
  qed
qed

lemma wait_step_wait_rel:
  assumes "wait_rel pc s t" and "wait_step timed_out (pc, s) = Some (pc', s')"
  shows "wait_rel pc' s' t"
  using assms by (cases pc) (auto simp: wait_rel_def split: if_splits)

lemma run_with_wait_rel:
  assumes "run_with_wait ms (pc, s) = Some (pc', s')" and "wait_rel pc s t"
  shows "\<exists>t'. run (other_actions ms) t = Some t' \<and> wait_rel pc' s' t'"
  using assms
proof (induction ms arbitrary: pc s t)
  case Nil
  then show ?case by simp
next
  case (Cons m ms)
  show ?case
  proof (cases m)
    case (Act a)
    obtain r s1 where ex: "exec a s = (r, s1)"
      by (cases "exec a s") auto
    with Cons.prems(1) Act have ok: "r = Returned \<or> (\<exists>x. r = Thrown x)"
      and rest: "run_with_wait ms (pc, s1) = Some (pc', s')"
      by (cases r; simp)+
    from exec_wait_rel [OF Cons.prems(2) ex ok] obtain t1 where
      ex_t: "exec a t = (r, t1)" and rel: "wait_rel pc s1 t1"
      by blast
    from Cons.IH [OF rest rel] obtain t' where
      "run (other_actions ms) t1 = Some t'" and "wait_rel pc' s' t'"
      by blast
    with ex_t ok Act show ?thesis
      by auto
  next
    case (WaitStep timed_out)
    with Cons.prems(1) obtain pc1 s1 where st: "wait_step timed_out (pc, s) = Some (pc1, s1)"
      and rest: "run_with_wait ms (pc1, s1) = Some (pc', s')"
      by (auto split: option.splits)
    from wait_step_wait_rel [OF Cons.prems(2) st] have "wait_rel pc1 s1 t" .
    from Cons.IH [OF rest this] WaitStep show ?thesis
      by simp
  qed
qed

lemma wait_among_others:
  assumes "run as (Logger_ctor out) = Some s"
    and "run_with_wait ms (WEntry, s) = Some (WDone, s')"
  shows "run (other_actions ms) s = Some s'"
proof -
  from run_consistent [OF assms(1) consistent_ctor] have "wait_rel WEntry s s"
    by (simp add: wait_rel_def)
  from run_with_wait_rel [OF assms(2) this] show ?thesis
    by (simp add: wait_rel_def)
qed

lemma wait_step_frame:
  assumes "wait_step t (pc, s) = Some (pc', s')"
  shows "s'\<lparr>tMutex := tMutex s\<rparr> = s"
  using assms by (cases pc) (auto split: if_splits)

text \<open>
  From each position inside \<open>wait\<close>, the logger at the return is the logger at the call:
  \<open>s0\<close> is the logger at the call, and the caller holds the mutex exactly at \<open>WHold\<close> and
  \<open>WUnlock\<close>.
\<close>

lemma wait_steps_restore:
  assumes "wait_steps ts (pc, s) = Some (WDone, s')"
    and "tMutex s0 = None"
    and "s = (if pc = WHold \<or> pc = WUnlock then s0\<lparr>tMutex := Some Caller\<rparr> else s0)"
  shows "s' = s0"
  using assms
proof (induction ts arbitrary: pc s)
  case Nil
  then show ?case by auto
next
  case (Cons t ts)
  from Cons.prems(1) obtain pc1 s1 where st: "wait_step t (pc, s) = Some (pc1, s1)"
    and rest: "wait_steps ts (pc1, s1) = Some (WDone, s')"
    by (auto split: option.splits)
  from st Cons.prems(2,3)
  have "s1 = (if pc1 = WHold \<or> pc1 = WUnlock then s0\<lparr>tMutex := Some Caller\<rparr> else s0)"
    by (cases pc) (auto split: if_splits)
  from Cons.IH [OF rest Cons.prems(2) this] show ?case .
qed

text \<open>
  C9. No step of \<open>wait\<close> changes a field of the logger other than the holder of the
  mutex. When \<open>wait\<close> has run from its call to its return with no step of another thread
  in between, however often it was woken before the time ran out, the logger is the one
  it was called on: the flag, the threshold, the file stream, the queue and the console
  are as they were and the mutex is free again. And when the other calls and the
  background thread take steps between the call and the return, the logger at the return
  is the one that those steps alone produce: \<open>wait\<close> consumes no record and makes no
  transition.
\<close>

theorem wait_leaves_state:
  "(wait_step t (pc, s) = Some (pc', s_step) \<longrightarrow> s_step\<lparr>tMutex := tMutex s\<rparr> = s)
   \<and> (wait_steps ts (WEntry, s) = Some (WDone, s_ret) \<longrightarrow> s_ret = s)
   \<and> (run as (Logger_ctor out) = Some s \<longrightarrow>
        run_with_wait ms (WEntry, s) = Some (WDone, s_end) \<longrightarrow>
        run (other_actions ms) s = Some s_end)"
proof (intro conjI impI)
  assume "wait_step t (pc, s) = Some (pc', s_step)"
  then show "s_step\<lparr>tMutex := tMutex s\<rparr> = s"
    by (rule wait_step_frame)
next
  assume r: "wait_steps ts (WEntry, s) = Some (WDone, s_ret)"
  then obtain t rest where ts: "ts = t # rest"
    by (cases ts) auto
  with r have "tMutex s = None"
    by (auto split: if_splits option.splits)
  from wait_steps_restore [OF r this] show "s_ret = s"
    by simp
next
  assume "run as (Logger_ctor out) = Some s"
    and "run_with_wait ms (WEntry, s) = Some (WDone, s_end)"
  then show "run (other_actions ms) s = Some s_end"
    by (rule wait_among_others)
qed

theorem wait_leaves_state_witness:
  "wait_step False (WHold, writing_state\<lparr>tMutex := Some Caller\<rparr>) =
       Some (WUnlock, writing_state\<lparr>tMutex := Some Caller\<rparr>)
   \<and> (writing_state\<lparr>tMutex := Some Caller\<rparr>)\<lparr>tMutex := tMutex (writing_state\<lparr>tMutex := Some Caller\<rparr>)\<rparr> =
       writing_state\<lparr>tMutex := Some Caller\<rparr>
   \<and> wait_steps [False, False, False, False, True, False]
        (WEntry, writing_state\<lparr>LogQueue := [example_entry]\<rparr>) =
       Some (WDone, writing_state\<lparr>LogQueue := [example_entry]\<rparr>)
   \<and> run two_records_schedule (Logger_ctor []) =
       Some (two_records_state InnerHead (Some Consumer)
         [example_entry, (EROR, ''disk full'', ''/a/b/c.cpp'', ''poll'', 57)] [] [])
   \<and> (\<exists>s_end. run_with_wait wait_example
          (WEntry, two_records_state InnerHead (Some Consumer)
             [example_entry, (EROR, ''disk full'', ''/a/b/c.cpp'', ''poll'', 57)] [] []) =
          Some (WDone, s_end)
        \<and> run (other_actions wait_example)
            (two_records_state InnerHead (Some Consumer)
              [example_entry, (EROR, ''disk full'', ''/a/b/c.cpp'', ''poll'', 57)] [] []) =
          Some s_end
        \<and> LogQueue s_end = [])"
proof -
  let ?held = "writing_state\<lparr>tMutex := Some Caller\<rparr>"
  let ?busy = "writing_state\<lparr>LogQueue := [example_entry]\<rparr>"
  let ?head = "two_records_state InnerHead (Some Consumer)
         [example_entry, (EROR, ''disk full'', ''/a/b/c.cpp'', ''poll'', 57)] [] []"
  have a: "wait_step False (WHold, ?held) = Some (WUnlock, ?held)"
    by (simp add: writing_state_def)
  have "\<exists>c. wait_steps [False, False, False, False, True, False] (WEntry, ?busy) = Some (WDone, c)"
    by (simp add: writing_state_def)
  then obtain c where c: "wait_steps [False, False, False, False, True, False] (WEntry, ?busy) = Some (WDone, c)"
    by blast
  have "\<exists>d. run_with_wait wait_example (WEntry, ?head) = Some (WDone, d) \<and> LogQueue d = []"
    by (simp add: wait_example_def two_records_state_def example_entry_def run_simps)
  then obtain d where d: "run_with_wait wait_example (WEntry, ?head) = Some (WDone, d)"
    and q: "LogQueue d = []"
    by blast
  from wait_leaves_state [where t = False and pc = WHold and s = ?held and pc' = WUnlock
      and s_step = ?held] a
  have 1: "?held\<lparr>tMutex := tMutex ?held\<rparr> = ?held"
    by blast
  from wait_leaves_state [where ts = "[False, False, False, False, True, False]" and s = ?busy
      and s_ret = c] c
  have 2: "c = ?busy"
    by blast
  from wait_leaves_state [where as = two_records_schedule and out = "[]" and s = ?head
      and ms = wait_example and s_end = d] two_records_run d
  have 3: "run (other_actions wait_example) ?head = Some d"
    by blast
  from d q 3 have "\<exists>s_end. run_with_wait wait_example (WEntry, ?head) = Some (WDone, s_end)
        \<and> run (other_actions wait_example) ?head = Some s_end \<and> LogQueue s_end = []"
    by blast
  with a c 1 2 two_records_run show ?thesis
    by simp
qed

end
